theory Spec2Isabelle
  imports Main "HOL-Library.Char_ord" "HOL-Library.List_Lexorder" "HOL-Library.Sublist"
begin

section \<open>ES-DE SD sync: the embedding of \<^verbatim>\<open>sync_esde_sd.py\<close>\<close>

text \<open>
  The script filters a master \<^verbatim>\<open>gamelist.xml\<close> down to the ROM files present on an SD card,
  copies the matching artwork and writes the filtered gamelist. The embedding follows the
  source function by function and keeps its names.

  Conventions of the model.
  \<^item> A Python \<^verbatim>\<open>str\<close> is a \<^typ>\<open>string\<close>; a character is a code point below 256, and
    \<^verbatim>\<open>str.lower\<close>, \<^verbatim>\<open>str.isspace\<close> and the regular expression class \<^verbatim>\<open>\s\<close> are the
    Unicode ones restricted to these code points.
  \<^item> A \<^verbatim>\<open>pathlib.Path\<close> is the list of its segments below its root (the master root or
    the SD root); \<^verbatim>\<open>p / s\<close> is \<open>p @ [s]\<close>. Two paths name the same file when they are
    equal, as on a file system that tells the case of the names apart.
  \<^item> The master tree and the ROM tree are read-only inputs (record \<open>world\<close>); the
    \<^verbatim>\<open>ES-DE\<close> tree of the SD card is the mutable state (record \<open>sd_card\<close>), threaded through
    every function that copies, writes or prints. The two are trees apart, each with its
    own paths: a write to the card changes nothing that is read from the master. A master
    root that lies inside the \<^verbatim>\<open>ES-DE\<close> tree of the card is outside the model.
  \<^item> An exception is a value: a function that can raise returns \<open>Inl\<close> of the error and of
    the state of the card at that moment. The exceptions of the model are those that the
    script raises itself, those of \<^verbatim>\<open>ET.parse\<close> and \<^verbatim>\<open>json.load\<close> on a malformed file, and
    that of \<^verbatim>\<open>shutil.copy2\<close> on a missing source.
  \<^item> The other calls into the file system (\<^verbatim>\<open>mkdir\<close>, \<^verbatim>\<open>iterdir\<close>, \<^verbatim>\<open>rglob\<close>, \<^verbatim>\<open>copy2\<close> on an
    existing source, \<^verbatim>\<open>ElementTree.write\<close>) return normally: an \<^verbatim>\<open>OSError\<close> of the platform,
    such as a regular file where a directory is to be made or a card that is full, is
    outside the model. The script catches none of them, so that each would end the run; a
    statement below that a run of the model returns is made under this convention, and the
    comparison of the preview with the real run assumes that both return.
\<close>

subsection \<open>Text primitives of Python\<close>

definition py_isspace :: "char \<Rightarrow> bool" where
  "py_isspace c = (let n = (of_char c :: nat) in
     (9 \<le> n \<and> n \<le> 13) \<or> (28 \<le> n \<and> n \<le> 32) \<or> n = 133 \<or> n = 160)"

definition py_lower_char :: "char \<Rightarrow> char" where
  "py_lower_char c = (let n = (of_char c :: nat) in
     if (65 \<le> n \<and> n \<le> 90) \<or> (192 \<le> n \<and> n \<le> 222 \<and> n \<noteq> 215)
     then char_of (n + 32) else c)"

definition lower :: "string \<Rightarrow> string" where
  "lower s = map py_lower_char s"

definition strip :: "string \<Rightarrow> string" where
  "strip s = rev (dropWhile py_isspace (rev (dropWhile py_isspace s)))"

definition replace_backslash :: "string \<Rightarrow> string" where
  "replace_backslash s = map (\<lambda>c. if c = CHR 0x5C then CHR ''/'' else c) s"

text \<open>\<^verbatim>\<open>s.split(sep)\<close> for a one-character separator: never empty, empty pieces kept.\<close>

fun split_on :: "char \<Rightarrow> string \<Rightarrow> string list" where
  "split_on sep [] = [[]]"
| "split_on sep (c # cs) =
     (if c = sep then [] # split_on sep cs
      else (case split_on sep cs of [] \<Rightarrow> [[c]] | p # ps \<Rightarrow> (c # p) # ps))"

text \<open>\<^verbatim>\<open>needle in hay\<close> on strings.\<close>

fun contains :: "string \<Rightarrow> string \<Rightarrow> bool" where
  "contains needle [] = (needle = [])"
| "contains needle (c # cs) = (prefix needle (c # cs) \<or> contains needle cs)"

text \<open>\<^verbatim>\<open>re.sub(r"[P]+", " ", s)\<close> for a character class \<open>P\<close>: every maximal run of
  characters of the class becomes one space.\<close>

function re_sub_runs :: "(char \<Rightarrow> bool) \<Rightarrow> string \<Rightarrow> string" where
  "re_sub_runs P [] = []"
| "re_sub_runs P (c # cs) =
     (if P c then CHR '' '' # re_sub_runs P (dropWhile P cs) else c # re_sub_runs P cs)"
  by pat_completeness auto
termination
  by (relation "measure (\<lambda>(P, s). length s)") (auto simp: length_dropWhile_le less_Suc_eq_le)

definition is_a_z_0_9 :: "char \<Rightarrow> bool" where
  "is_a_z_0_9 c = (let n = (of_char c :: nat) in
     (97 \<le> n \<and> n \<le> 122) \<or> (48 \<le> n \<and> n \<le> 57))"

text \<open>\<^verbatim>\<open>xs.index(x)\<close>, used only where \<^verbatim>\<open>x in xs\<close> has been checked.\<close>

definition first_index :: "'a list \<Rightarrow> 'a \<Rightarrow> nat" where
  "first_index xs x = length (takeWhile (\<lambda>y. y \<noteq> x) xs)"

subsection \<open>Paths\<close>

type_synonym path = "string list"

definition parent :: "path \<Rightarrow> path" where
  "parent p = butlast p"

definition name_of :: "path \<Rightarrow> string" where
  "name_of p = (if p = [] then [] else last p)"

definition with_name :: "path \<Rightarrow> string \<Rightarrow> path" where
  "with_name p n = butlast p @ [n]"

text \<open>\<^verbatim>\<open>Path(text).name\<close> for a text with forward slashes: the last segment that is neither
  empty nor a single dot, or the empty string.\<close>

definition path_name :: "string \<Rightarrow> string" where
  "path_name s =
     (case filter (\<lambda>p. p \<noteq> [] \<and> p \<noteq> ''.'') (split_on CHR ''/'' s) of
        [] \<Rightarrow> []
      | p # ps \<Rightarrow> last (p # ps))"

text \<open>\<^verbatim>\<open>Path(name).stem\<close>: the name up to its last dot, unless that dot is the first or the
  last character of the name.\<close>

definition path_stem :: "string \<Rightarrow> string" where
  "path_stem name =
     (if CHR ''.'' \<notin> set name then name
      else let i = length name - length (takeWhile (\<lambda>c. c \<noteq> CHR ''.'') (rev name)) - 1
           in if 0 < i \<and> i < length name - 1 then take i name else name)"

subsection \<open>Constants and records of the script\<close>

definition MEDIA_CATEGORIES_ALL :: "string list" where
  "MEDIA_CATEGORIES_ALL =
     [''3dboxes'', ''backcovers'', ''covers'', ''custom'', ''fanart'', ''manuals'', ''marquees'',
      ''miximages'', ''physicalmedia'', ''screenshots'', ''titlescreens'', ''videos'']"

record RunStats =
  systems_seen :: nat
  systems_processed :: nat
  games_kept :: nat
  games_total_in_master :: nat
  media_files_copied :: nat
  media_files_skipped :: nat
  media_categories_attempted :: nat
  media_categories_missing :: nat
  categories_ignored_empty_or_missing :: nat
  gamelists_written :: nat

text \<open>The fields of \<^verbatim>\<open>AuditItem\<close> carry the prefix \<open>ai_\<close>: \<open>system\<close> and \<open>note\<close> are needed
  as a variable name and as a keyword.\<close>

record AuditItem =
  ai_system :: string
  ai_rom_filename :: string
  ai_in_master_gamelist :: bool
  ai_missing_categories :: "string list"
  ai_note :: string

subsection \<open>Normalizers\<close>

definition normalize_rom_filename_from_xml :: "string \<Rightarrow> string" where
  "normalize_rom_filename_from_xml path_text =
     (let p = replace_backslash (strip path_text);
          p = (if prefix ''./'' p then drop 2 p else p)
      in lower (path_name p))"

definition normalize_stem_loose :: "string \<Rightarrow> string" where
  "normalize_stem_loose stem =
     (let s = lower stem;
          s = re_sub_runs (\<lambda>c. \<not> (is_a_z_0_9 c \<or> py_isspace c)) s;
          s = strip (re_sub_runs py_isspace s)
      in s)"

subsection \<open>The catalog document\<close>

text \<open>An \<^verbatim>\<open>ET.Element\<close> as far as the script reads it: its tag, its text (\<^verbatim>\<open>None\<close> when the
  element has none) and its child elements in document order. \<^verbatim>\<open>deepcopy\<close> of an element is
  the element.\<close>

datatype element = Element (el_tag: string) (el_text: "string option") (el_children: "element list")

text \<open>\<^verbatim>\<open>e.find(t)\<close> and \<^verbatim>\<open>e.findall(t)\<close> for a plain tag: the first, and all, direct children
  with that tag.\<close>

definition find_child :: "element \<Rightarrow> string \<Rightarrow> element option" where
  "find_child e t = List.find (\<lambda>c. el_tag c = t) (el_children e)"

definition findall :: "element \<Rightarrow> string \<Rightarrow> element list" where
  "findall e t = filter (\<lambda>c. el_tag c = t) (el_children e)"

text \<open>A file \<^verbatim>\<open>gamelist.xml\<close> of the master: \<^verbatim>\<open>ET.parse\<close> raises on a malformed file and
  returns the root element of a well-formed one.\<close>

datatype catalog = Malformed | Document element

subsection \<open>The two file trees\<close>

text \<open>A regular file: its bytes and its modification time.\<close>

record fnode =
  content :: string
  mtime :: nat

definition st_size :: "fnode \<Rightarrow> nat" where
  "st_size f = length (content f)"

text \<open>An entry of an artwork directory of the master (\<^verbatim>\<open>iterdir\<close>): a regular file, or
  anything else (\<^verbatim>\<open>is_file()\<close> false).\<close>

datatype dirent = FileEnt string fnode | DirEnt string

text \<open>The tree below \<^verbatim>\<open><sd>/ROMs\<close>, as \<^verbatim>\<open>rglob\<close> walks it.\<close>

datatype tree = FileNode string | DirNode string "tree list"

text \<open>
  The read-only inputs of a run.
  \<^item> \<open>gamelists p\<close>: the file at path \<open>p\<close> of the master, when it exists.
  \<^item> \<open>listing p\<close>: the entries of the directory \<open>p\<close> of the master in \<^verbatim>\<open>iterdir\<close> order,
    when it exists.
  \<^item> \<open>roms_root\<close>: the entries of \<^verbatim>\<open><sd>/ROMs\<close>, when that folder exists; \<open>has_esde\<close>: whether
    \<^verbatim>\<open><sd>/ES-DE\<close> exists.
  \<^item> \<open>src_stat_fails p\<close>, \<open>dst_stat_fails p\<close>: whether \<^verbatim>\<open>stat()\<close> on the path of the master,
    of the card, raises \<^verbatim>\<open>OSError\<close> inside the \<^verbatim>\<open>try\<close> of \<^verbatim>\<open>copy_file\<close>.
  \<^item> \<open>now_stamp\<close>: \<^verbatim>\<open>datetime.now()\<close> formatted, taken the same during one run.
  \<^item> \<open>profiles_file\<close>: the file \<^verbatim>\<open>profiles.json\<close>.
\<close>

datatype profiles = NoProfilesFile | BadProfilesFile | Profiles "string \<rightharpoonup> string list"

record world =
  gamelists :: "path \<Rightarrow> catalog option"
  listing :: "path \<Rightarrow> dirent list option"
  roms_root :: "tree list option"
  has_esde :: bool
  src_stat_fails :: "path \<Rightarrow> bool"
  dst_stat_fails :: "path \<Rightarrow> bool"
  now_stamp :: string
  profiles_file :: profiles

text \<open>The lines the script prints that the model keeps: the lines of the dry run, which
  stand for the operations not done, and the per-ROM report.\<close>

datatype line =
    DryCopy path path
  | DryBackup path path
  | DryWrite path nat
  | Report string string string "string list" "string list"

text \<open>
  The tree \<^verbatim>\<open><sd>/ES-DE\<close>: the regular files (\<open>files\<close>), the gamelist documents written with
  \<^verbatim>\<open>ElementTree.write\<close> (\<open>documents\<close>, kept as elements: their bytes are not modelled), the
  directories made by \<^verbatim>\<open>mkdir\<close> (\<open>dirs\<close>), and the lines printed so far (\<open>printed\<close>).
  Paths are relative to the SD root. A path exists for \<^verbatim>\<open>copy_file\<close> when it is a regular
  file: the documents and directories of a run lie on other paths than its copies.
\<close>

record sd_card =
  files :: "path \<rightharpoonup> fnode"
  documents :: "path \<rightharpoonup> element"
  dirs :: "path set"
  printed :: "line list"

datatype exit_reason =
    MissingROMsFolder
  | MissingESDEFolder
  | InvalidMediaCategories "string list"

datatype error =
    SystemExit exit_reason
  | ParseError path
  | JSONDecodeError
  | FileNotFoundError path

text \<open>A \<^verbatim>\<open>for\<close> loop whose body can raise: the loop stops at the first error.\<close>

fun for_loop :: "('a \<Rightarrow> 's \<Rightarrow> 'e + 's) \<Rightarrow> 'a list \<Rightarrow> 's \<Rightarrow> 'e + 's" where
  "for_loop body [] s = Inr s"
| "for_loop body (x # xs) s =
     (case body x s of Inl e \<Rightarrow> Inl e | Inr s' \<Rightarrow> for_loop body xs s')"

subsection \<open>ROM files on the card\<close>

fun file_names :: "tree \<Rightarrow> string list" where
  "file_names (FileNode n) = [n]"
| "file_names (DirNode n ts) = concat (map file_names ts)"

fun lookup_dir :: "tree list \<Rightarrow> string \<Rightarrow> tree list option" where
  "lookup_dir [] n = None"
| "lookup_dir (FileNode m # ts) n = lookup_dir ts n"
| "lookup_dir (DirNode m sub # ts) n = (if m = n then Some sub else lookup_dir ts n)"

text \<open>The directory \<^verbatim>\<open><sd>/ROMs/<system>\<close>, when it exists.\<close>

definition sd_rom_dir :: "world \<Rightarrow> string \<Rightarrow> tree list option" where
  "sd_rom_dir w system = (case roms_root w of None \<Rightarrow> None | Some ts \<Rightarrow> lookup_dir ts system)"

definition iter_rom_files :: "tree list option \<Rightarrow> string set" where
  "iter_rom_files rom_dir =
     (case rom_dir of
        None \<Rightarrow> {}
      | Some ts \<Rightarrow> set (map lower (concat (map file_names ts))))"

subsection \<open>Directories, backup, copy\<close>

text \<open>\<^verbatim>\<open>ensure_dir\<close>: \<^verbatim>\<open>mkdir(parents=True, exist_ok=True)\<close> adds the directory and those above
  it; the dry run makes nothing.\<close>

definition ensure_dir :: "path \<Rightarrow> bool \<Rightarrow> sd_card \<Rightarrow> sd_card" where
  "ensure_dir p dry_run sd =
     (if dry_run then sd else sd\<lparr>dirs := dirs sd \<union> set (prefixes p)\<rparr>)"

definition backup_file :: "world \<Rightarrow> path \<Rightarrow> bool \<Rightarrow> sd_card \<Rightarrow> sd_card" where
  "backup_file w p dry_run sd =
     (case documents sd p of
        None \<Rightarrow> sd
      | Some doc \<Rightarrow>
          let backup_path = with_name p (name_of p @ ''.bak-'' @ now_stamp w)
          in if dry_run then sd\<lparr>printed := printed sd @ [DryBackup p backup_path]\<rparr>
             else sd\<lparr>documents := (documents sd)(backup_path \<mapsto> doc)\<rparr>)"

fun lookup_file :: "dirent list \<Rightarrow> string \<Rightarrow> fnode option" where
  "lookup_file [] n = None"
| "lookup_file (FileEnt m f # es) n = (if m = n then Some f else lookup_file es n)"
| "lookup_file (DirEnt m # es) n = lookup_file es n"

text \<open>The regular file at a path of the master, when there is one.\<close>

definition nas_file :: "world \<Rightarrow> path \<Rightarrow> fnode option" where
  "nas_file w p =
     (if p = [] then None
      else case listing w (butlast p) of None \<Rightarrow> None | Some es \<Rightarrow> lookup_file es (last p))"

text \<open>\<^verbatim>\<open>dst.stat().st_size == src.stat().st_size\<close> inside \<^verbatim>\<open>try\<close>: \<open>None\<close> when a \<^verbatim>\<open>stat\<close>
  raised \<^verbatim>\<open>OSError\<close>.\<close>

definition same_size :: "world \<Rightarrow> path \<Rightarrow> fnode \<Rightarrow> path \<Rightarrow> fnode \<Rightarrow> bool option" where
  "same_size w dst d src s =
     (if dst_stat_fails w dst \<or> src_stat_fails w src then None
      else Some (st_size d = st_size s))"

text \<open>\<^verbatim>\<open>copy_file\<close>: the result is \<^verbatim>\<open>"copied"\<close> or \<^verbatim>\<open>"skipped"\<close>. \<^verbatim>\<open>shutil.copy2\<close> raises when
  the source is missing, and gives the destination the bytes and the modification time of
  the source.\<close>

definition copy_file ::
  "world \<Rightarrow> path \<Rightarrow> path \<Rightarrow> bool \<Rightarrow> sd_card \<Rightarrow> (error \<times> sd_card) + (string \<times> sd_card)" where
  "copy_file w src dst dry_run sd0 =
     (let sd = ensure_dir (parent dst) dry_run sd0;
          skip = (case (files sd dst, nas_file w src) of
                    (Some d, Some s) \<Rightarrow> same_size w dst d src s = Some True
                  | _ \<Rightarrow> False)
      in if skip then Inr (''skipped'', sd)
         else if dry_run then Inr (''copied'', sd\<lparr>printed := printed sd @ [DryCopy src dst]\<rparr>)
         else (case nas_file w src of
                 None \<Rightarrow> Inl (FileNotFoundError src, sd)
               | Some s \<Rightarrow> Inr (''copied'', sd\<lparr>files := (files sd)(dst \<mapsto> s)\<rparr>)))"

subsection \<open>The media index\<close>

text \<open>A \<^verbatim>\<open>dict\<close> from stems to lists of files, in insertion order.\<close>

type_synonym index = "(string \<times> path list) list"

text \<open>\<^verbatim>\<open>idx.setdefault(key, []).append(f)\<close>\<close>

fun setdefault_append :: "index \<Rightarrow> string \<Rightarrow> path \<Rightarrow> index" where
  "setdefault_append [] key f = [(key, [f])]"
| "setdefault_append ((k, fs) # idx) key f =
     (if k = key then (k, fs @ [f]) # idx else (k, fs) # setdefault_append idx key f)"

text \<open>\<^verbatim>\<open>idx.get(key, [])\<close>\<close>

definition idx_get :: "index \<Rightarrow> string \<Rightarrow> path list" where
  "idx_get idx key = (case map_of idx key of None \<Rightarrow> [] | Some fs \<Rightarrow> fs)"

definition index_entry :: "path \<Rightarrow> bool \<Rightarrow> dirent \<Rightarrow> index \<times> index \<times> nat \<Rightarrow> index \<times> index \<times> nat" where
  "index_entry category_dir fuzzy ent acc =
     (case ent of
        DirEnt n \<Rightarrow> acc
      | FileEnt n node \<Rightarrow>
          (case acc of (exact_idx, norm_idx, total_files) \<Rightarrow>
             let f = category_dir @ [n];
                 key = lower (path_stem n);
                 exact_idx = setdefault_append exact_idx key f;
                 norm_idx = (if fuzzy then setdefault_append norm_idx (normalize_stem_loose (path_stem n)) f
                             else norm_idx)
             in (exact_idx, norm_idx, total_files + 1)))"

definition build_media_index :: "world \<Rightarrow> path \<Rightarrow> bool \<Rightarrow> index \<times> index \<times> nat" where
  "build_media_index w category_dir fuzzy =
     (case listing w category_dir of
        None \<Rightarrow> ([], [], 0)
      | Some ents \<Rightarrow> fold (index_entry category_dir fuzzy) ents ([], [], 0))"

subsection \<open>Category inference\<close>

definition known_or_none :: "string \<Rightarrow> string option" where
  "known_or_none cat = (if cat \<in> set MEDIA_CATEGORIES_ALL then Some cat else None)"

text \<open>The segments of a media reference: \<^verbatim>\<open>[p for p in t.split("/") if p and p != "."]\<close> for
  the stripped text \<^verbatim>\<open>t\<close> with forward slashes.\<close>

definition ref_parts :: "string \<Rightarrow> string list" where
  "ref_parts txt =
     filter (\<lambda>p. p \<noteq> [] \<and> p \<noteq> ''.'') (split_on CHR ''/'' (replace_backslash (strip txt)))"

text \<open>The tests of the first two cases of \<^verbatim>\<open>parse_category_from_media_ref\<close>: the first
  segment \<^verbatim>\<open>downloaded_media\<close> has two segments after it, the first of them the system; the
  first segment equal to the system has a segment after it.\<close>

definition case1_applies :: "string list \<Rightarrow> string \<Rightarrow> bool" where
  "case1_applies parts system =
     (''downloaded_media'' \<in> set parts
      \<and> first_index parts ''downloaded_media'' + 2 < length parts
      \<and> lower (parts ! (first_index parts ''downloaded_media'' + 1)) = lower system)"

definition case2_applies :: "string list \<Rightarrow> string \<Rightarrow> bool" where
  "case2_applies lowered system =
     (lower system \<in> set lowered \<and> first_index lowered (lower system) + 1 < length lowered)"

definition parse_category_from_media_ref :: "string \<Rightarrow> string \<Rightarrow> string option" where
  "parse_category_from_media_ref txt system =
     (if txt = [] then None
      else
        let parts = ref_parts txt;
            lowered = map lower parts
        in if case1_applies parts system
           then known_or_none (lower (parts ! (first_index parts ''downloaded_media'' + 2)))
           else if case2_applies lowered system
           then known_or_none (lowered ! (first_index lowered (lower system) + 1))
           else List.find (\<lambda>p. p \<in> set MEDIA_CATEGORIES_ALL) lowered)"

definition expected_step :: "string \<Rightarrow> string list \<Rightarrow> element \<Rightarrow> string set \<Rightarrow> string set" where
  "expected_step system selected_categories child expected =
     (case el_text child of
        None \<Rightarrow> expected
      | Some raw \<Rightarrow>
          let txt = strip raw
          in if txt = [] then expected
             else if \<not> contains ''downloaded_media'' (replace_backslash txt)
                     \<and> \<not> list_ex (\<lambda>c. contains c (lower txt)) MEDIA_CATEGORIES_ALL
             then expected
             else (case parse_category_from_media_ref txt system of
                     None \<Rightarrow> expected
                   | Some cat \<Rightarrow>
                       if cat \<noteq> [] \<and> cat \<in> set selected_categories
                       then insert cat expected else expected))"

definition expected_categories_from_game_xml :: "element \<Rightarrow> string \<Rightarrow> string list \<Rightarrow> string set" where
  "expected_categories_from_game_xml game system selected_categories =
     fold (expected_step system selected_categories) (el_children game) {}"

subsection \<open>The matcher\<close>

text \<open>The matching code that \<^verbatim>\<open>filter_gamelist_and_sync_media\<close> and \<^verbatim>\<open>audit_missing_master\<close>
  both carry inline: \<^verbatim>\<open>matches\<close> starts empty and is extended tier by tier.\<close>

definition prefix_scan :: "index \<Rightarrow> string \<Rightarrow> path list \<Rightarrow> path list" where
  "prefix_scan exact_idx rom_stem matches =
     fold (\<lambda>(k, fs) matches. if prefix rom_stem k then matches @ fs else matches) exact_idx matches"

definition find_matches :: "index \<Rightarrow> index \<Rightarrow> string \<Rightarrow> string \<Rightarrow> bool \<Rightarrow> path list" where
  "find_matches exact_idx norm_idx rom_stem rom_stem_norm fuzzy_media_match =
     (let matches = [] @ idx_get exact_idx rom_stem
      in if matches = [] \<and> fuzzy_media_match
         then let matches = matches @ idx_get norm_idx rom_stem_norm
              in if matches = [] then prefix_scan exact_idx rom_stem matches else matches
         else matches)"

subsection \<open>Sync mode\<close>

text \<open>The body of \<^verbatim>\<open>for src in matches\<close>.\<close>

definition copy_match ::
  "world \<Rightarrow> path \<Rightarrow> string \<Rightarrow> bool \<Rightarrow> path \<Rightarrow> RunStats \<times> sd_card
     \<Rightarrow> (error \<times> sd_card) + (RunStats \<times> sd_card)" where
  "copy_match w out_media_root cat dry_run src st =
     (case st of (stats, sd) \<Rightarrow>
        let dst = out_media_root @ [cat] @ [name_of src]
        in case copy_file w src dst dry_run sd of
             Inl e \<Rightarrow> Inl e
           | Inr (result, sd) \<Rightarrow>
               if result = ''copied''
               then Inr (stats\<lparr>media_files_copied := media_files_copied stats + 1\<rparr>, sd)
               else Inr (stats\<lparr>media_files_skipped := media_files_skipped stats + 1\<rparr>, sd))"

text \<open>\<^verbatim>\<open>d.get(cat, {})\<close> on the dictionary of the indexes of the categories.\<close>

definition cat_idx_get :: "(string \<rightharpoonup> index) \<Rightarrow> string \<Rightarrow> index" where
  "cat_idx_get d cat = (case d cat of None \<Rightarrow> [] | Some idx \<Rightarrow> idx)"

text \<open>The body of \<^verbatim>\<open>for cat in expected_categories\<close>; the state of the loop is
  \<^verbatim>\<open>matched_cats\<close>, \<^verbatim>\<open>missed_cats\<close>, the statistics and the card.\<close>

definition sync_category ::
  "world \<Rightarrow> path \<Rightarrow> (string \<rightharpoonup> index) \<Rightarrow> (string \<rightharpoonup> index) \<Rightarrow> string \<Rightarrow> string \<Rightarrow> bool \<Rightarrow> bool
     \<Rightarrow> string \<Rightarrow> string list \<times> string list \<times> RunStats \<times> sd_card
     \<Rightarrow> (error \<times> sd_card) + (string list \<times> string list \<times> RunStats \<times> sd_card)" where
  "sync_category w out_media_root cat_exact_idx cat_norm_idx rom_stem rom_stem_norm
      fuzzy_media_match dry_run cat st =
     (case st of (matched_cats, missed_cats, stats, sd) \<Rightarrow>
        let stats = stats\<lparr>media_categories_attempted := media_categories_attempted stats + 1\<rparr>;
            matches = find_matches (cat_idx_get cat_exact_idx cat) (cat_idx_get cat_norm_idx cat)
                        rom_stem rom_stem_norm fuzzy_media_match
        in if matches \<noteq> []
           then (case for_loop (copy_match w out_media_root cat dry_run) matches (stats, sd) of
                   Inl e \<Rightarrow> Inl e
                 | Inr (stats, sd) \<Rightarrow> Inr (matched_cats @ [cat], missed_cats, stats, sd))
           else Inr (matched_cats, missed_cats @ [cat],
                     stats\<lparr>media_categories_missing := media_categories_missing stats + 1\<rparr>, sd))"

definition append_child :: "element \<Rightarrow> element \<Rightarrow> element" where
  "append_child e c = Element (el_tag e) (el_text e) (el_children e @ [c])"

text \<open>The body of \<^verbatim>\<open>for game in master_games\<close>; the state of the loop is \<^verbatim>\<open>kept\<close>,
  \<^verbatim>\<open>new_root\<close>, the statistics and the card.\<close>

definition sync_game ::
  "world \<Rightarrow> string \<Rightarrow> path \<Rightarrow> string set \<Rightarrow> (string \<rightharpoonup> index) \<Rightarrow> (string \<rightharpoonup> index)
     \<Rightarrow> string list \<Rightarrow> bool \<Rightarrow> bool \<Rightarrow> bool
     \<Rightarrow> element \<Rightarrow> nat \<times> element \<times> RunStats \<times> sd_card
     \<Rightarrow> (error \<times> sd_card) + (nat \<times> element \<times> RunStats \<times> sd_card)" where
  "sync_game w system out_media_root rom_filenames cat_exact_idx cat_norm_idx
      effective_categories dry_run fuzzy_media_match report game st =
     (case st of (kept, new_root, stats, sd) \<Rightarrow>
        (case find_child game ''path'' of
           None \<Rightarrow> Inr st
         | Some path_el \<Rightarrow>
             (case el_text path_el of
                None \<Rightarrow> Inr st
              | Some path_text \<Rightarrow>
                  if path_text = [] then Inr st
                  else
                    let rom_filename = normalize_rom_filename_from_xml path_text
                    in if rom_filename \<notin> rom_filenames then Inr st
                       else
                         let kept = kept + 1;
                             stats = stats\<lparr>games_kept := games_kept stats + 1\<rparr>;
                             rom_stem = lower (path_stem rom_filename);
                             rom_stem_norm = normalize_stem_loose rom_stem;
                             expected_from_xml =
                               expected_categories_from_game_xml game system effective_categories;
                             expected_categories =
                               (if expected_from_xml \<noteq> {} then sorted_list_of_set expected_from_xml
                                else effective_categories)
                         in case for_loop
                                   (sync_category w out_media_root cat_exact_idx cat_norm_idx
                                      rom_stem rom_stem_norm fuzzy_media_match dry_run)
                                   expected_categories ([], [], stats, sd) of
                              Inl e \<Rightarrow> Inl e
                            | Inr (matched_cats, missed_cats, stats, sd) \<Rightarrow>
                                let new_root = append_child new_root game;
                                    expected_mode =
                                      (if expected_from_xml \<noteq> {} then ''xml'' else ''heuristic'');
                                    sd = (if report
                                          then sd\<lparr>printed := printed sd @
                                                 [Report system (path_name rom_filename) expected_mode
                                                    matched_cats missed_cats]\<rparr>
                                          else sd)
                                in Inr (kept, new_root, stats, sd))))"

text \<open>The body of \<^verbatim>\<open>for cat in media_categories\<close>, which builds the indexes and prunes the
  categories without files.\<close>

definition index_category ::
  "world \<Rightarrow> path \<Rightarrow> bool \<Rightarrow> string
     \<Rightarrow> (string \<rightharpoonup> index) \<times> (string \<rightharpoonup> index) \<times> string list \<times> RunStats
     \<Rightarrow> (string \<rightharpoonup> index) \<times> (string \<rightharpoonup> index) \<times> string list \<times> RunStats" where
  "index_category w media_root fuzzy_media_match cat acc =
     (case acc of (cat_exact_idx, cat_norm_idx, effective_categories, stats) \<Rightarrow>
        (case build_media_index w (media_root @ [cat]) fuzzy_media_match of
           (exact_idx, norm_idx, total_files) \<Rightarrow>
             (cat_exact_idx(cat \<mapsto> exact_idx), cat_norm_idx(cat \<mapsto> norm_idx),
              (if total_files > 0 then effective_categories @ [cat] else effective_categories),
              (if total_files > 0 then stats
               else stats\<lparr>categories_ignored_empty_or_missing :=
                             categories_ignored_empty_or_missing stats + 1\<rparr>))))"

definition sd_out_gamelist :: "string \<Rightarrow> path" where
  "sd_out_gamelist system = [''ES-DE''] @ [''gamelists''] @ [system] @ [''gamelist.xml'']"

definition sd_out_media_root :: "string \<Rightarrow> path" where
  "sd_out_media_root system = [''ES-DE''] @ [''downloaded_media''] @ [system]"

definition nas_gamelist :: "string \<Rightarrow> path" where
  "nas_gamelist system = [''gamelists''] @ [system] @ [''gamelist.xml'']"

definition nas_media_root :: "string \<Rightarrow> path" where
  "nas_media_root system = [''downloaded_media''] @ [system]"

text \<open>The end of \<^verbatim>\<open>filter_gamelist_and_sync_media\<close>: the write of the filtered gamelist.\<close>

definition write_gamelist ::
  "world \<Rightarrow> string \<Rightarrow> bool \<Rightarrow> bool \<Rightarrow> nat \<Rightarrow> element \<Rightarrow> RunStats \<times> sd_card \<Rightarrow> RunStats \<times> sd_card" where
  "write_gamelist w system dry_run backup_gamelist_flag kept new_root st =
     (case st of (stats, sd) \<Rightarrow>
        if kept = 0 then (stats, sd)
        else
          let sd = ensure_dir (parent (sd_out_gamelist system)) dry_run sd;
              sd = (if backup_gamelist_flag then backup_file w (sd_out_gamelist system) dry_run sd
                    else sd);
              st = (if dry_run
                    then (stats, sd\<lparr>printed := printed sd @ [DryWrite (sd_out_gamelist system) kept]\<rparr>)
                    else (stats\<lparr>gamelists_written := gamelists_written stats + 1\<rparr>,
                          sd\<lparr>documents := (documents sd)(sd_out_gamelist system \<mapsto> new_root)\<rparr>))
          in (case st of (stats, sd) \<Rightarrow>
                (stats\<lparr>systems_processed := systems_processed stats + 1\<rparr>, sd)))"

definition filter_gamelist_and_sync_media ::
  "world \<Rightarrow> string \<Rightarrow> string list \<Rightarrow> bool \<Rightarrow> bool \<Rightarrow> bool \<Rightarrow> bool \<Rightarrow> RunStats \<times> sd_card
     \<Rightarrow> (error \<times> sd_card) + (RunStats \<times> sd_card)" where
  "filter_gamelist_and_sync_media w system media_categories dry_run backup_gamelist_flag
      fuzzy_media_match report st =
     (case st of (stats, sd) \<Rightarrow>
        (case gamelists w (nas_gamelist system) of
           None \<Rightarrow> Inr st
         | Some gamelist_file \<Rightarrow>
             let rom_filenames = iter_rom_files (sd_rom_dir w system)
             in if rom_filenames = {} then Inr st
                else
                  (case gamelist_file of
                     Malformed \<Rightarrow> Inl (ParseError (nas_gamelist system), sd)
                   | Document root \<Rightarrow>
                       let provider = find_child root ''provider'';
                           new_root = Element ''gameList'' None [];
                           new_root = (case provider of
                                         None \<Rightarrow> new_root
                                       | Some p \<Rightarrow> append_child new_root p)
                       in (case fold (index_category w (nas_media_root system) fuzzy_media_match)
                                  media_categories (Map.empty, Map.empty, [], stats) of
                             (cat_exact_idx, cat_norm_idx, effective_categories, stats) \<Rightarrow>
                               let master_games = findall root ''game'';
                                   stats = stats\<lparr>games_total_in_master :=
                                             games_total_in_master stats + length master_games\<rparr>
                               in (case for_loop
                                          (sync_game w system (sd_out_media_root system) rom_filenames
                                             cat_exact_idx cat_norm_idx effective_categories dry_run
                                             fuzzy_media_match report)
                                          master_games (0, new_root, stats, sd) of
                                     Inl e \<Rightarrow> Inl e
                                   | Inr (kept, new_root, stats, sd) \<Rightarrow>
                                       Inr (write_gamelist w system dry_run backup_gamelist_flag
                                              kept new_root (stats, sd)))))))"

subsection \<open>Audit mode\<close>

text \<open>Audit mode prints its findings and can write them to a CSV file; the model returns
  the list \<^verbatim>\<open>all_items\<close>, the rows of the CSV file and the exit status. The suggestions of
  \<^verbatim>\<open>--audit_suggest\<close> are printed only and are left out.\<close>

fun join :: "string \<Rightarrow> string list \<Rightarrow> string" where
  "join sep [] = []"
| "join sep [x] = x"
| "join sep (x # y # ys) = x @ sep @ join sep (y # ys)"

definition master_map_add :: "element \<Rightarrow> (string \<rightharpoonup> element) \<Rightarrow> (string \<rightharpoonup> element)" where
  "master_map_add game master_map =
     (case find_child game ''path'' of
        None \<Rightarrow> master_map
      | Some p \<Rightarrow>
          (case el_text p of
             None \<Rightarrow> master_map
           | Some path_text \<Rightarrow>
               if path_text = [] then master_map
               else master_map(normalize_rom_filename_from_xml path_text \<mapsto> game)))"

definition audit_index_category ::
  "world \<Rightarrow> path \<Rightarrow> bool \<Rightarrow> string
     \<Rightarrow> (string \<rightharpoonup> index) \<times> (string \<rightharpoonup> index) \<times> string list \<times> nat
     \<Rightarrow> (string \<rightharpoonup> index) \<times> (string \<rightharpoonup> index) \<times> string list \<times> nat" where
  "audit_index_category w media_root fuzzy_media_match cat acc =
     (case acc of (cat_exact_idx, cat_norm_idx, effective_categories, ignored) \<Rightarrow>
        (case build_media_index w (media_root @ [cat]) fuzzy_media_match of
           (exact_idx, norm_idx, total_files) \<Rightarrow>
             (cat_exact_idx(cat \<mapsto> exact_idx), cat_norm_idx(cat \<mapsto> norm_idx),
              (if total_files > 0 then effective_categories @ [cat] else effective_categories),
              (if total_files > 0 then ignored else ignored + 1))))"

definition audit_category ::
  "(string \<rightharpoonup> index) \<Rightarrow> (string \<rightharpoonup> index) \<Rightarrow> string \<Rightarrow> string \<Rightarrow> bool \<Rightarrow> string
     \<Rightarrow> string list \<Rightarrow> string list" where
  "audit_category cat_exact_idx cat_norm_idx rom_stem rom_stem_norm fuzzy_media_match cat missing_cats =
     (let matches = find_matches (cat_idx_get cat_exact_idx cat) (cat_idx_get cat_norm_idx cat)
                      rom_stem rom_stem_norm fuzzy_media_match
      in if matches = [] then missing_cats @ [cat] else missing_cats)"

definition audit_rom ::
  "string \<Rightarrow> (string \<rightharpoonup> element) \<Rightarrow> (string \<rightharpoonup> index) \<Rightarrow> (string \<rightharpoonup> index) \<Rightarrow> string list \<Rightarrow> bool
     \<Rightarrow> string \<Rightarrow> AuditItem list \<Rightarrow> AuditItem list" where
  "audit_rom system master_map cat_exact_idx cat_norm_idx effective_categories fuzzy_media_match
      rom all_items =
     (case master_map rom of
        None \<Rightarrow>
          all_items @ [\<lparr>ai_system = system, ai_rom_filename = rom, ai_in_master_gamelist = False,
                         ai_missing_categories = [],
                         ai_note = ''ROM not found in master gamelist.xml''\<rparr>]
      | Some game \<Rightarrow>
          let expected_from_xml =
                expected_categories_from_game_xml game system effective_categories;
              expected_categories =
                (if expected_from_xml \<noteq> {} then sorted_list_of_set expected_from_xml
                 else effective_categories);
              rom_stem = lower (path_stem rom);
              rom_stem_norm = normalize_stem_loose rom_stem;
              missing_cats =
                fold (audit_category cat_exact_idx cat_norm_idx rom_stem rom_stem_norm fuzzy_media_match)
                  expected_categories []
          in if missing_cats \<noteq> []
             then all_items @ [\<lparr>ai_system = system, ai_rom_filename = rom,
                                 ai_in_master_gamelist = True, ai_missing_categories = missing_cats,
                                 ai_note = ''missing media categories in master cache''\<rparr>]
             else all_items)"

text \<open>The body of \<^verbatim>\<open>for system in systems\<close> of \<^verbatim>\<open>audit_missing_master\<close>.\<close>

definition audit_system ::
  "world \<Rightarrow> string list \<Rightarrow> bool \<Rightarrow> string \<Rightarrow> AuditItem list \<Rightarrow> error + AuditItem list" where
  "audit_system w media_categories_selected fuzzy_media_match system all_items =
     (let sd_rom_files = sorted_list_of_set (iter_rom_files (sd_rom_dir w system))
      in if sd_rom_files = [] then Inr all_items
         else
           (case gamelists w (nas_gamelist system) of
              None \<Rightarrow>
                Inr (fold (\<lambda>rom all_items.
                             all_items @ [\<lparr>ai_system = system, ai_rom_filename = rom,
                                            ai_in_master_gamelist = False, ai_missing_categories = [],
                                            ai_note = ''missing master gamelist.xml''\<rparr>])
                       sd_rom_files all_items)
            | Some Malformed \<Rightarrow> Inl (ParseError (nas_gamelist system))
            | Some (Document root) \<Rightarrow>
                let master_games = findall root ''game'';
                    master_map = fold master_map_add master_games Map.empty
                in (case fold (audit_index_category w (nas_media_root system) fuzzy_media_match)
                           media_categories_selected (Map.empty, Map.empty, [], 0) of
                      (cat_exact_idx, cat_norm_idx, effective_categories, ignored) \<Rightarrow>
                        Inr (fold (audit_rom system master_map cat_exact_idx cat_norm_idx
                                     effective_categories fuzzy_media_match)
                               sd_rom_files all_items))))"

definition is_problem :: "AuditItem \<Rightarrow> bool" where
  "is_problem i = (\<not> ai_in_master_gamelist i \<or> ai_missing_categories i \<noteq> [])"

definition csv_row :: "AuditItem \<Rightarrow> string list" where
  "csv_row i =
     [ai_system i, ai_rom_filename i, (if ai_in_master_gamelist i then ''yes'' else ''no''),
      join '','' (ai_missing_categories i), ai_note i]"

definition audit_missing_master ::
  "world \<Rightarrow> string list \<Rightarrow> string list \<Rightarrow> bool \<Rightarrow> bool \<Rightarrow> string option
     \<Rightarrow> error + (nat \<times> AuditItem list \<times> string list list option)" where
  "audit_missing_master w systems media_categories_selected fuzzy_media_match audit_suggest audit_csv =
     (case for_loop (audit_system w media_categories_selected fuzzy_media_match) systems [] of
        Inl e \<Rightarrow> Inl e
      | Inr all_items \<Rightarrow>
          let rows = (case audit_csv of
                        None \<Rightarrow> None
                      | Some out \<Rightarrow>
                          Some ([''system'', ''rom_filename'', ''in_master_gamelist'',
                                 ''missing_categories'', ''note'']
                                # map csv_row (filter is_problem all_items)));
              problems = length (filter is_problem all_items)
          in Inr ((if problems > 0 then 1 else 0), all_items, rows))"

subsection \<open>The command line and \<^verbatim>\<open>main\<close>\<close>

text \<open>The parsed arguments; the two roots are the roots of the two trees of the model.\<close>

record args =
  arg_profile :: string
  arg_media :: string
  arg_systems :: string
  arg_dry_run :: bool
  arg_backup_gamelist :: bool
  arg_fuzzy_media_match :: bool
  arg_report :: bool
  arg_audit_missing_master :: bool
  arg_audit_csv :: string
  arg_audit_suggest :: bool

fun dir_names :: "tree list \<Rightarrow> string list" where
  "dir_names [] = []"
| "dir_names (FileNode n # ts) = dir_names ts"
| "dir_names (DirNode n sub # ts) = n # dir_names ts"

definition list_sd_systems :: "world \<Rightarrow> string list" where
  "list_sd_systems w = (case roms_root w of None \<Rightarrow> [] | Some ts \<Rightarrow> sort (dir_names ts))"

definition validate_sd_root :: "world \<Rightarrow> error + unit" where
  "validate_sd_root w =
     (if roms_root w = None then Inl (SystemExit MissingROMsFolder)
      else if \<not> has_esde w then Inl (SystemExit MissingESDEFolder)
      else Inr ())"

text \<open>\<^verbatim>\<open>[m.strip() for m in text.split(",") if m.strip()]\<close>\<close>

definition comma_list :: "string \<Rightarrow> string list" where
  "comma_list s = map strip (filter (\<lambda>m. strip m \<noteq> []) (split_on CHR '','' s))"

definition load_profiles :: "world \<Rightarrow> error + (string \<rightharpoonup> string list)" where
  "load_profiles w =
     (case profiles_file w of
        NoProfilesFile \<Rightarrow> Inr Map.empty
      | BadProfilesFile \<Rightarrow> Inl JSONDecodeError
      | Profiles m \<Rightarrow> Inr m)"

text \<open>The list \<^verbatim>\<open>media_categories\<close> of \<^verbatim>\<open>resolve_media_categories\<close> before it is validated:
  from \<^verbatim>\<open>--media\<close>, else from the profile, else every category but the videos.\<close>

definition requested_media_categories :: "(string \<rightharpoonup> string list) \<Rightarrow> args \<Rightarrow> string list" where
  "requested_media_categories profiles a =
     (if strip (arg_media a) \<noteq> [] then comma_list (arg_media a)
      else
        let prof_name =
              (if strip (arg_profile a) \<noteq> [] then strip (arg_profile a)
               else if profiles ''no_videos'' \<noteq> None then ''no_videos'' else [])
        in (case (if prof_name \<noteq> [] then profiles prof_name else None) of
              Some cats \<Rightarrow> cats
            | None \<Rightarrow> filter (\<lambda>m. m \<noteq> ''videos'') MEDIA_CATEGORIES_ALL))"

definition resolve_media_categories :: "world \<Rightarrow> args \<Rightarrow> error + string list" where
  "resolve_media_categories w a =
     (case load_profiles w of
        Inl e \<Rightarrow> Inl e
      | Inr profiles \<Rightarrow>
          let media_categories = requested_media_categories profiles a;
              invalid = filter (\<lambda>m. m \<notin> set MEDIA_CATEGORIES_ALL) media_categories
          in if invalid \<noteq> [] then Inl (SystemExit (InvalidMediaCategories invalid))
             else Inr media_categories)"

definition resolve_systems :: "world \<Rightarrow> args \<Rightarrow> string list" where
  "resolve_systems w a =
     (if strip (arg_systems a) \<noteq> [] then comma_list (arg_systems a) else list_sd_systems w)"

text \<open>What a run that ends without an exception leaves: nothing when no system was found,
  the audit, or the statistics and the card of a sync.\<close>

datatype outcome =
    NothingToDo
  | Audited nat "AuditItem list" "string list list option"
  | Synced RunStats sd_card

definition exit_status :: "outcome \<Rightarrow> nat" where
  "exit_status r = (case r of NothingToDo \<Rightarrow> 0 | Audited n items rows \<Rightarrow> n | Synced stats sd \<Rightarrow> 0)"

definition new_stats :: "nat \<Rightarrow> RunStats" where
  "new_stats n =
     \<lparr>systems_seen = n, systems_processed = 0, games_kept = 0, games_total_in_master = 0,
      media_files_copied = 0, media_files_skipped = 0, media_categories_attempted = 0,
      media_categories_missing = 0, categories_ignored_empty_or_missing = 0,
      gamelists_written = 0\<rparr>"

text \<open>The loop \<^verbatim>\<open>for system in systems\<close> of sync mode.\<close>

definition sync_systems ::
  "world \<Rightarrow> string list \<Rightarrow> bool \<Rightarrow> bool \<Rightarrow> bool \<Rightarrow> bool \<Rightarrow> string list \<Rightarrow> RunStats \<times> sd_card
     \<Rightarrow> (error \<times> sd_card) + (RunStats \<times> sd_card)" where
  "sync_systems w media_categories dry_run backup_gamelist_flag fuzzy_media_match report systems st =
     for_loop (\<lambda>system. filter_gamelist_and_sync_media w system media_categories dry_run
                           backup_gamelist_flag fuzzy_media_match report) systems st"

definition main :: "world \<Rightarrow> args \<Rightarrow> sd_card \<Rightarrow> (error \<times> sd_card) + outcome" where
  "main w a sd =
     (case validate_sd_root w of
        Inl e \<Rightarrow> Inl (e, sd)
      | Inr u \<Rightarrow>
          (case resolve_media_categories w a of
             Inl e \<Rightarrow> Inl (e, sd)
           | Inr media_categories \<Rightarrow>
               let systems = resolve_systems w a
               in if systems = [] then Inr NothingToDo
                  else if arg_audit_missing_master a
                  then (case audit_missing_master w systems media_categories
                               (arg_fuzzy_media_match a) (arg_audit_suggest a)
                               (if strip (arg_audit_csv a) \<noteq> [] then Some (strip (arg_audit_csv a))
                                else None) of
                          Inl e \<Rightarrow> Inl (e, sd)
                        | Inr (status, all_items, rows) \<Rightarrow> Inr (Audited status all_items rows))
                  else (case sync_systems w media_categories (arg_dry_run a) (arg_backup_gamelist a)
                               (arg_fuzzy_media_match a) (arg_report a) systems
                               (new_stats (length systems), sd) of
                          Inl e \<Rightarrow> Inl e
                        | Inr (stats, sd) \<Rightarrow> Inr (Synced stats sd))))"

subsection \<open>Auxiliary notions of the proofs\<close>

text \<open>A string in which every character of the class \<open>P\<close> is a single space followed by a
  character outside the class, or by nothing: the strings that \<open>re_sub_runs P\<close> returns.\<close>

fun spaced :: "(char \<Rightarrow> bool) \<Rightarrow> string \<Rightarrow> bool" where
  "spaced P [] = True"
| "spaced P [c] = (if P c then c = CHR '' '' else True)"
| "spaced P (c # d # cs) = ((if P c then c = CHR '' '' \<and> \<not> P d else True) \<and> spaced P (d # cs))"


text \<open>The case variants of a string, for the statement on the loose normalizer. The script
  does not call \<^verbatim>\<open>str.swapcase\<close>; it is the library function that gives the other case of a
  character. Its result is a string, as the upper-case form of \<^verbatim>\<open>U+00DF\<close> is the two letters
  \<^verbatim>\<open>SS\<close>. The upper-case forms of \<^verbatim>\<open>U+00B5\<close> and \<^verbatim>\<open>U+00FF\<close> are \<^verbatim>\<open>U+039C\<close> and \<^verbatim>\<open>U+0178\<close>,
  which are not code points below 256: there the result is \<open>None\<close>.\<close>

definition py_swapcase_char :: "char \<Rightarrow> string option" where
  "py_swapcase_char c = (let n = (of_char c :: nat) in
     if (65 \<le> n \<and> n \<le> 90) \<or> (192 \<le> n \<and> n \<le> 222 \<and> n \<noteq> 215)
     then Some [char_of (n + 32)]
     else if (97 \<le> n \<and> n \<le> 122) \<or> (224 \<le> n \<and> n \<le> 254 \<and> n \<noteq> 247)
     then Some [char_of (n - 32)]
     else if n = 223 then Some ''SS''
     else if n = 181 \<or> n = 255 then None
     else Some [c])"

text \<open>A string with the case of some of its characters changed: each character at a
  flagged position is replaced by its other case.\<close>

fun change_case :: "bool list \<Rightarrow> string \<Rightarrow> string option" where
  "change_case (b # bs) (c # cs) =
     (case (if b then py_swapcase_char c else Some [c]) of
        None \<Rightarrow> None
      | Some u \<Rightarrow> map_option (\<lambda>t. u @ t) (change_case bs cs))"
| "change_case [] cs = Some cs"
| "change_case bs [] = Some []"

text \<open>The characters at the flagged positions.\<close>

definition swapped :: "bool list \<Rightarrow> string \<Rightarrow> string" where
  "swapped flags s = map snd (filter fst (zip flags s))"

text \<open>An index in which every key has at least one file.\<close>

definition nonempty_lists :: "index \<Rightarrow> bool" where
  "nonempty_lists idx = list_all (\<lambda>(k, fs). fs \<noteq> []) idx"

subsection \<open>Concrete inputs\<close>

text \<open>A category directory with two covers whose stems differ but normalize to the same
  stem, and a subdirectory.\<close>

definition tiers_world :: world where
  "tiers_world =
     \<lparr>gamelists = (\<lambda>p. None),
      listing = (\<lambda>p. if p = [''downloaded_media'', ''switch'', ''covers'']
                      then Some [FileEnt ''Super Mario Bros.png'' \<lparr>content = ''a'', mtime = 1\<rparr>,
                                 FileEnt ''super-mario-bros.png'' \<lparr>content = ''bb'', mtime = 2\<rparr>,
                                 DirEnt ''old'']
                      else None),
      roms_root = None, has_esde = True,
      src_stat_fails = (\<lambda>p. False), dst_stat_fails = (\<lambda>p. False),
      now_stamp = ''20260101-000000'', profiles_file = NoProfilesFile\<rparr>"

definition tiers_exact_idx :: index where
  "tiers_exact_idx =
     [(''super mario bros'', [[''downloaded_media'', ''switch'', ''covers'', ''Super Mario Bros.png'']]),
      (''super-mario-bros'', [[''downloaded_media'', ''switch'', ''covers'', ''super-mario-bros.png'']])]"

definition tiers_norm_idx :: index where
  "tiers_norm_idx =
     [(''super mario bros'', [[''downloaded_media'', ''switch'', ''covers'', ''Super Mario Bros.png''],
                              [''downloaded_media'', ''switch'', ''covers'', ''super-mario-bros.png'']])]"

subsection \<open>The inference rules as the specification words them\<close>

text \<open>The three rules of the specification, each tried at every position of the segments:
  rule 1 is a segment \<^verbatim>\<open>downloaded_media\<close>, then the system, then a known category; rule 2 is
  the system, then a known category; rule 3 is any segment that is a known category. They
  are compared with \<^verbatim>\<open>parse_category_from_media_ref\<close> below.\<close>

fun spec_rule1 :: "string list \<Rightarrow> string \<Rightarrow> string option" where
  "spec_rule1 (a # b # c # rest) system =
     (if a = ''downloaded_media'' \<and> lower b = lower system \<and> lower c \<in> set MEDIA_CATEGORIES_ALL
      then Some (lower c) else spec_rule1 (b # c # rest) system)"
| "spec_rule1 parts system = None"

fun spec_rule2 :: "string list \<Rightarrow> string \<Rightarrow> string option" where
  "spec_rule2 (a # b # rest) system =
     (if lower a = lower system \<and> lower b \<in> set MEDIA_CATEGORIES_ALL
      then Some (lower b) else spec_rule2 (b # rest) system)"
| "spec_rule2 parts system = None"

definition spec_rule3 :: "string list \<Rightarrow> string option" where
  "spec_rule3 parts = List.find (\<lambda>p. p \<in> set MEDIA_CATEGORIES_ALL) (map lower parts)"

text \<open>A card and a master without artwork; the arguments of a run without options; an
  empty card.\<close>

definition plain_world :: world where
  "plain_world =
     \<lparr>gamelists = (\<lambda>p. None), listing = (\<lambda>p. None),
      roms_root = Some [DirNode ''switch'' [FileNode ''celeste.xci'']], has_esde = True,
      src_stat_fails = (\<lambda>p. False), dst_stat_fails = (\<lambda>p. False),
      now_stamp = ''20260101-000000'', profiles_file = NoProfilesFile\<rparr>"

definition plain_args :: args where
  "plain_args =
     \<lparr>arg_profile = [], arg_media = [], arg_systems = [], arg_dry_run = False,
      arg_backup_gamelist = False, arg_fuzzy_media_match = False, arg_report = False,
      arg_audit_missing_master = False, arg_audit_csv = [], arg_audit_suggest = False\<rparr>"

definition empty_card :: sd_card where
  "empty_card = \<lparr>files = Map.empty, documents = Map.empty, dirs = {}, printed = []\<rparr>"

text \<open>A master with two covers and a card that holds both already: one with other bytes of
  the same length, one on a path whose \<^verbatim>\<open>stat\<close> fails.\<close>

definition copy_world :: world where
  "copy_world =
     \<lparr>gamelists = (\<lambda>p. None),
      listing = (\<lambda>p. if p = [''downloaded_media'', ''switch'', ''covers'']
                      then Some [FileEnt ''Celeste.png'' \<lparr>content = ''new'', mtime = 7\<rparr>,
                                 FileEnt ''Hades.png'' \<lparr>content = ''hades'', mtime = 8\<rparr>]
                      else None),
      roms_root = None, has_esde = True,
      src_stat_fails = (\<lambda>p. False),
      dst_stat_fails = (\<lambda>p. p = [''ES-DE'', ''downloaded_media'', ''switch'', ''covers'', ''Hades.png'']),
      now_stamp = ''20260101-000000'', profiles_file = NoProfilesFile\<rparr>"

definition copy_card :: sd_card where
  "copy_card =
     \<lparr>files = [[''ES-DE'', ''downloaded_media'', ''switch'', ''covers'', ''Celeste.png'']
                  \<mapsto> \<lparr>content = ''old'', mtime = 3\<rparr>,
                [''ES-DE'', ''downloaded_media'', ''switch'', ''covers'', ''Hades.png'']
                  \<mapsto> \<lparr>content = ''hades'', mtime = 4\<rparr>],
      documents = Map.empty, dirs = {}, printed = []\<rparr>"

subsection \<open>Notions of the statements about a system\<close>

text \<open>A catalog entry that sync mode retains: it has a \<^verbatim>\<open>path\<close> field with a text, and the
  normalized filename of that text is one of the ROM filenames of the card.\<close>

definition kept_entry :: "string set \<Rightarrow> element \<Rightarrow> bool" where
  "kept_entry rom_filenames game =
     (case find_child game ''path'' of
        None \<Rightarrow> False
      | Some path_el \<Rightarrow>
          (case el_text path_el of
             None \<Rightarrow> False
           | Some path_text \<Rightarrow>
               path_text \<noteq> [] \<and> normalize_rom_filename_from_xml path_text \<in> rom_filenames))"




text \<open>The provider node of the master document, if there is one.\<close>

definition provider_nodes :: "element \<Rightarrow> element list" where
  "provider_nodes root = (case find_child root ''provider'' of None \<Rightarrow> [] | Some p \<Rightarrow> [p])"

text \<open>A path that names an existing regular file directly in a directory of the master; an
  index, and a dictionary of indexes, that hold such paths only.\<close>

definition from_dir :: "world \<Rightarrow> path \<Rightarrow> path \<Rightarrow> bool" where
  "from_dir w d f = ((\<exists>n. f = d @ [n]) \<and> nas_file w f \<noteq> None)"

definition index_ok :: "world \<Rightarrow> path \<Rightarrow> index \<Rightarrow> bool" where
  "index_ok w d idx = (\<forall>(k, fs) \<in> set idx. \<forall>f \<in> set fs. from_dir w d f)"

definition dict_ok :: "world \<Rightarrow> path \<Rightarrow> (string \<rightharpoonup> index) \<Rightarrow> bool" where
  "dict_ok w media_root dict = (\<forall>cat idx. dict cat = Some idx \<longrightarrow> index_ok w (media_root @ [cat]) idx)"

text \<open>A report line that names categories of a given list only; a card that has gained such
  lines (and any other lines) and whose documents are as before.\<close>

fun report_ok :: "string list \<Rightarrow> line \<Rightarrow> bool" where
  "report_ok cats (Report system rom expected_mode matched_cats missed_cats) =
     (set matched_cats \<union> set missed_cats \<subseteq> set cats)"
| "report_ok cats l = True"

definition evolves :: "string list \<Rightarrow> sd_card \<Rightarrow> sd_card \<Rightarrow> bool" where
  "evolves cats sd sd' =
     (documents sd' = documents sd
      \<and> (\<exists>new. printed sd' = printed sd @ new \<and> list_all (report_ok cats) new))"

text \<open>A category whose directory in the master is absent or holds no regular file.\<close>

fun is_file_ent :: "dirent \<Rightarrow> bool" where
  "is_file_ent (FileEnt n node) = True"
| "is_file_ent (DirEnt n) = False"

definition category_without_files :: "world \<Rightarrow> string \<Rightarrow> string \<Rightarrow> bool" where
  "category_without_files w system cat =
     (case listing w (nas_media_root system @ [cat]) of
        None \<Rightarrow> True
      | Some ents \<Rightarrow> filter is_file_ent ents = [])"

text \<open>A master catalog with four entries, the provider node after the first of them: the
  card holds the ROM of the first entry and, in a subdirectory and under another case, of the
  last; the second entry has no ROM on the card and the third no path. Of the three
  categories one has a file, one is an empty directory but for a subdirectory, one is
  absent.\<close>

definition celeste_game :: element where
  "celeste_game =
     Element ''game'' None
       [Element ''path'' (Some ''./Celeste.xci'') [], Element ''name'' (Some ''Celeste'') []]"

definition hades_game :: element where
  "hades_game =
     Element ''game'' None
       [Element ''path'' (Some ''./Hades.nsp'') [], Element ''name'' (Some ''Hades'') []]"

definition orphan_game :: element where
  "orphan_game = Element ''game'' None [Element ''name'' (Some ''Orphan'') []]"

definition zelda_game :: element where
  "zelda_game =
     Element ''game'' None
       [Element ''path'' (Some ''./sub/Zelda.NSP'') [], Element ''name'' (Some ''Zelda'') []]"

definition sync_provider :: element where
  "sync_provider = Element ''provider'' None [Element ''System'' (Some ''switch'') []]"

definition sync_root :: element where
  "sync_root =
     Element ''gameList'' None [celeste_game, sync_provider, hades_game, orphan_game, zelda_game]"

definition sync_world :: world where
  "sync_world =
     \<lparr>gamelists = (\<lambda>p. if p = [''gamelists'', ''switch'', ''gamelist.xml'']
                        then Some (Document sync_root) else None),
      listing = (\<lambda>p. if p = [''downloaded_media'', ''switch'', ''covers'']
                      then Some [FileEnt ''Celeste.png'' \<lparr>content = ''new'', mtime = 7\<rparr>]
                      else if p = [''downloaded_media'', ''switch'', ''screenshots'']
                      then Some [DirEnt ''old'']
                      else None),
      roms_root = Some [DirNode ''switch''
                          [FileNode ''Celeste.xci'', DirNode ''sub'' [FileNode ''zelda.nsp'']]],
      has_esde = True,
      src_stat_fails = (\<lambda>p. False), dst_stat_fails = (\<lambda>p. False),
      now_stamp = ''20260101-000000'', profiles_file = NoProfilesFile\<rparr>"






subsection \<open>Notions of the comparison of the dry run with the real run\<close>

text \<open>The destinations of the copies that a dry run has logged.\<close>

fun copy_dsts :: "line list \<Rightarrow> path list" where
  "copy_dsts [] = []"
| "copy_dsts (DryCopy src dst # ls) = dst # copy_dsts ls"
| "copy_dsts (l # ls) = copy_dsts ls"

text \<open>Two statistics that agree on every counter but \<^verbatim>\<open>gamelists_written\<close>, which the dry
  run never increments.\<close>

definition same_counts :: "RunStats \<Rightarrow> RunStats \<Rightarrow> bool" where
  "same_counts a b =
     (systems_seen a = systems_seen b
      \<and> systems_processed a = systems_processed b
      \<and> games_kept a = games_kept b
      \<and> games_total_in_master a = games_total_in_master b
      \<and> media_files_copied a = media_files_copied b
      \<and> media_files_skipped a = media_files_skipped b
      \<and> media_categories_attempted a = media_categories_attempted b
      \<and> media_categories_missing a = media_categories_missing b
      \<and> categories_ignored_empty_or_missing a = categories_ignored_empty_or_missing b)"

text \<open>The test of \<^verbatim>\<open>copy_file\<close> for skipping, on the files of a card.\<close>

definition skips :: "world \<Rightarrow> path \<Rightarrow> path \<Rightarrow> (path \<rightharpoonup> fnode) \<Rightarrow> bool" where
  "skips w src dst fs =
     (case (fs dst, nas_file w src) of
        (Some d, Some s) \<Rightarrow> same_size w dst d src s = Some True
      | _ \<Rightarrow> False)"

text \<open>The card of the real run against the card of the dry run at the same point of the two
  runs: their files agree except at the logged destinations, and at each logged destination
  the dry run did not skip the copy of its source (the destination without its first
  segment).\<close>

definition mirrored :: "world \<Rightarrow> sd_card \<Rightarrow> sd_card \<Rightarrow> bool" where
  "mirrored w sr sd =
     ((\<forall>p. p \<notin> set (copy_dsts (printed sd)) \<longrightarrow> files sr p = files sd p)
      \<and> (\<forall>p \<in> set (copy_dsts (printed sd)). \<not> skips w (tl p) p (files sd)))"

text \<open>A card with the same files, documents and directories.\<close>

definition untouched :: "sd_card \<Rightarrow> sd_card \<Rightarrow> bool" where
  "untouched sd sd' = (files sd' = files sd \<and> documents sd' = documents sd \<and> dirs sd' = dirs sd)"

text \<open>The statistics of a run that ended without an exception.\<close>

definition stats_of :: "(error \<times> sd_card) + (RunStats \<times> sd_card) \<Rightarrow> RunStats option" where
  "stats_of r = (case r of Inl e \<Rightarrow> None | Inr (stats, sd) \<Rightarrow> Some stats)"

text \<open>A master catalog with two entries whose paths differ in case only, for one ROM and
  one cover.\<close>

definition twice_root :: element where
  "twice_root =
     Element ''gameList'' None
       [Element ''game'' None [Element ''path'' (Some ''./Celeste.xci'') []],
        Element ''game'' None [Element ''path'' (Some ''./celeste.xci'') []]]"

definition twice_world :: world where
  "twice_world =
     \<lparr>gamelists = (\<lambda>p. if p = [''gamelists'', ''switch'', ''gamelist.xml'']
                        then Some (Document twice_root) else None),
      listing = (\<lambda>p. if p = [''downloaded_media'', ''switch'', ''covers'']
                      then Some [FileEnt ''Celeste.png'' \<lparr>content = ''new'', mtime = 7\<rparr>]
                      else None),
      roms_root = Some [DirNode ''switch'' [FileNode ''Celeste.xci'']],
      has_esde = True,
      src_stat_fails = (\<lambda>p. False), dst_stat_fails = (\<lambda>p. False),
      now_stamp = ''20260101-000000'', profiles_file = NoProfilesFile\<rparr>"

text \<open>Three systems on the card: the catalog of the first is malformed, the second has no
  catalog, the third is as above.\<close>

definition batch_world :: world where
  "batch_world =
     \<lparr>gamelists = (\<lambda>p. if p = [''gamelists'', ''gba'', ''gamelist.xml''] then Some Malformed
                        else if p = [''gamelists'', ''switch'', ''gamelist.xml'']
                        then Some (Document sync_root) else None),
      listing = (\<lambda>p. if p = [''downloaded_media'', ''switch'', ''covers'']
                      then Some [FileEnt ''Celeste.png'' \<lparr>content = ''new'', mtime = 7\<rparr>]
                      else None),
      roms_root = Some [DirNode ''gba'' [FileNode ''Metroid.gba''],
                        DirNode ''nes'' [FileNode ''Zelda.nes''],
                        DirNode ''switch'' [FileNode ''Celeste.xci'']],
      has_esde = True,
      src_stat_fails = (\<lambda>p. False), dst_stat_fails = (\<lambda>p. False),
      now_stamp = ''20260101-000000'', profiles_file = NoProfilesFile\<rparr>"

text \<open>A card whose log names no copy destination twice.\<close>

definition no_repeat :: "sd_card \<Rightarrow> bool" where
  "no_repeat sd = distinct (copy_dsts (printed sd))"

section \<open>Properties\<close>

subsection \<open>The loose normalizer\<close>

lemma sharp_s_code: "(of_char c :: nat) = 223 \<Longrightarrow> c = CHR 0xDF"
proof -
  assume a: "(of_char c :: nat) = 223"
  have "char_of (of_char c :: nat) = c" by simp
  with a have "c = char_of (223 :: nat)" by simp
  also have "\<dots> = CHR 0xDF" by code_simp
  finally show ?thesis .
qed

lemma lower_swapcase:
  "py_swapcase_char c = Some u \<Longrightarrow> c \<noteq> CHR 0xDF \<Longrightarrow> lower u = [py_lower_char c]"
  unfolding py_swapcase_char_def py_lower_char_def lower_def Let_def
  using nat_of_char_less_256[of c] sharp_s_code[of c]
  by (auto simp: of_char_of split: if_splits)

lemma lower_append: "lower (u @ t) = lower u @ lower t"
  by (simp add: lower_def)

lemma lower_change_case:
  "change_case flags s = Some t \<Longrightarrow> CHR 0xDF \<notin> set (swapped flags s) \<Longrightarrow> lower t = lower s"
proof (induction flags s arbitrary: t rule: change_case.induct)
  case (1 b bs c cs)
  then show ?case
    by (auto simp: swapped_def lower_append lower_def split: if_splits option.splits
             dest!: lower_swapcase)
next
  case (2 cs)
  then show ?case by simp
next
  case (3 bs)
  then show ?case by simp
qed

lemma re_sub_runs_id: "(\<And>c. c \<in> set s \<Longrightarrow> \<not> P c) \<Longrightarrow> re_sub_runs P s = s"
  by (induction s) auto

lemma set_re_sub_runs: "set (re_sub_runs P s) \<subseteq> {c \<in> set s. \<not> P c} \<union> {CHR '' ''}"
proof (induction P s rule: re_sub_runs.induct)
  case (1 P)
  then show ?case by simp
next
  case (2 P c cs)
  show ?case
  proof (cases "P c")
    case True
    have "set (dropWhile P cs) \<subseteq> set cs" by (auto dest: set_dropWhileD)
    with 2(1)[OF True] True show ?thesis by auto
  next
    case False
    with 2(2)[OF False] show ?thesis by auto
  qed
qed

lemma re_sub_runs_head: "re_sub_runs P (dropWhile P cs) = [] \<or> \<not> P (hd (re_sub_runs P (dropWhile P cs)))"
proof (cases "dropWhile P cs")
  case Nil
  then show ?thesis by (simp only: re_sub_runs.simps simp_thms)
next
  case (Cons d ds)
  then have "\<not> P d" using hd_dropWhile[of P cs] by auto
  with Cons show ?thesis by simp
qed

lemma spaced_Cons: "spaced P (c # s) = ((if P c then c = CHR '' '' \<and> (s = [] \<or> \<not> P (hd s)) else True) \<and> spaced P s)"
  by (cases s) auto

lemma spaced_re_sub_runs: "spaced P (re_sub_runs P s)"
proof (induction P s rule: re_sub_runs.induct)
  case (1 P)
  then show ?case by simp
next
  case (2 P c cs)
  show ?case
  proof (cases "P c")
    case True
    with 2(1)[OF True] re_sub_runs_head[of P cs] show ?thesis
      by (simp add: spaced_Cons)
  next
    case False
    with 2(2)[OF False] show ?thesis by (simp add: spaced_Cons)
  qed
qed

lemma spaced_fixed: "spaced P s \<Longrightarrow> re_sub_runs P s = s"
  by (induction P s rule: spaced.induct) (auto split: if_splits)

lemma spaced_append_left: "spaced P (xs @ ys) \<Longrightarrow> spaced P xs"
proof (induction xs)
  case Nil
  then show ?case by simp
next
  case (Cons x xs)
  then show ?case by (cases xs) (auto simp: spaced_Cons split: if_splits)
qed

lemma spaced_append_right: "spaced P (xs @ ys) \<Longrightarrow> spaced P ys"
  by (induction xs) (auto simp: spaced_Cons)

lemma rstrip_prefix: "rev (dropWhile P (rev u)) @ rev (takeWhile P (rev u)) = u"
proof -
  have "rev (takeWhile P (rev u) @ dropWhile P (rev u)) = u" by simp
  then show ?thesis by (simp only: rev_append)
qed

lemma spaced_strip: "spaced P s \<Longrightarrow> spaced P (strip s)"
proof -
  assume a: "spaced P s"
  have "takeWhile py_isspace s @ dropWhile py_isspace s = s" by simp
  with a have b: "spaced P (dropWhile py_isspace s)" using spaced_append_right by metis
  from rstrip_prefix[of py_isspace "dropWhile py_isspace s"] b
  show ?thesis unfolding strip_def using spaced_append_left by metis
qed

lemma set_strip: "set (strip s) \<subseteq> set s"
  unfolding strip_def by (auto dest!: set_dropWhileD)

lemma strip_ends: "strip s = [] \<or> (\<not> py_isspace (hd (strip s)) \<and> \<not> py_isspace (last (strip s)))"
proof (cases "strip s = []")
  case True
  then show ?thesis by simp
next
  case False
  let ?u = "dropWhile py_isspace s"
  let ?r = "dropWhile py_isspace (rev ?u)"
  from False have r: "?r \<noteq> []" by (simp add: strip_def)
  then have l: "\<not> py_isspace (hd ?r)" using hd_dropWhile by blast
  have u: "?u \<noteq> []"
  proof
    assume "?u = []"
    then have "?r = []" by (simp only: rev.simps dropWhile.simps)
    with r show False by simp
  qed
  then have hu: "\<not> py_isspace (hd ?u)" using hd_dropWhile by blast
  have "strip s @ rev (takeWhile py_isspace (rev ?u)) = ?u"
    unfolding strip_def by (rule rstrip_prefix)
  with False have "hd ?u = hd (strip s)" by (metis hd_append2)
  moreover have "last (strip s) = hd ?r" using r by (simp add: strip_def last_rev)
  ultimately show ?thesis using hu l by simp
qed

lemma strip_fixed: "s = [] \<or> (\<not> py_isspace (hd s) \<and> \<not> py_isspace (last s)) \<Longrightarrow> strip s = s"
proof (cases s)
  case Nil
  then show ?thesis by (simp add: strip_def)
next
  case (Cons c cs)
  assume "s = [] \<or> (\<not> py_isspace (hd s) \<and> \<not> py_isspace (last s))"
  with Cons have h: "\<not> py_isspace c" and l: "\<not> py_isspace (last s)" by auto
  from h Cons have 1: "dropWhile py_isspace s = s" by simp
  from Cons have "rev s \<noteq> []" by simp
  then obtain d ds where rs: "rev s = d # ds" by (cases "rev s") auto
  then have "d = last s" by (metis Cons hd_rev list.sel(1) list.simps(3))
  with l have "dropWhile py_isspace (d # ds) = d # ds" by simp
  then have 2: "dropWhile py_isspace (rev s) = rev s" by (simp only: rs)
  show ?thesis by (simp add: strip_def 1 2)
qed

lemma lower_char_fixed: "is_a_z_0_9 c \<or> c = CHR '' '' \<Longrightarrow> py_lower_char c = c"
  by (auto simp: is_a_z_0_9_def py_lower_char_def Let_def)

lemma space_is_space: "py_isspace CHR '' ''"
  by (simp add: py_isspace_def)

lemma not_space_a_z_0_9: "is_a_z_0_9 c \<Longrightarrow> \<not> py_isspace c"
  by (auto simp: is_a_z_0_9_def py_isspace_def Let_def)

lemma normalize_chars:
  assumes "c \<in> set (normalize_stem_loose s)"
  shows "is_a_z_0_9 c \<or> c = CHR '' ''"
proof -
  let ?t = "re_sub_runs (\<lambda>c. \<not> (is_a_z_0_9 c \<or> py_isspace c)) (lower s)"
  from assms have "c \<in> set (re_sub_runs py_isspace ?t)"
    using set_strip by (auto simp: normalize_stem_loose_def Let_def)
  then have "(c \<in> set ?t \<and> \<not> py_isspace c) \<or> c = CHR '' ''"
    using set_re_sub_runs[of py_isspace ?t] by auto
  moreover have "c \<in> set ?t \<Longrightarrow> is_a_z_0_9 c \<or> py_isspace c \<or> c = CHR '' ''"
    using set_re_sub_runs[of "\<lambda>c. \<not> (is_a_z_0_9 c \<or> py_isspace c)" "lower s"] by auto
  ultimately show ?thesis by auto
qed

lemma normalize_spaced: "spaced py_isspace (normalize_stem_loose s)"
  by (simp add: normalize_stem_loose_def Let_def spaced_strip spaced_re_sub_runs)

lemma normalize_ends:
  "normalize_stem_loose s = [] \<or>
   (\<not> py_isspace (hd (normalize_stem_loose s)) \<and> \<not> py_isspace (last (normalize_stem_loose s)))"
  unfolding normalize_stem_loose_def Let_def by (rule strip_ends)

lemma normalize_fixed:
  assumes chars: "\<And>c. c \<in> set t \<Longrightarrow> is_a_z_0_9 c \<or> c = CHR '' ''"
    and sp: "spaced py_isspace t"
    and ends: "t = [] \<or> (\<not> py_isspace (hd t) \<and> \<not> py_isspace (last t))"
  shows "normalize_stem_loose t = t"
proof -
  have 1: "lower t = t"
    unfolding lower_def using chars by (simp add: map_idI lower_char_fixed)
  have 2: "re_sub_runs (\<lambda>c. \<not> (is_a_z_0_9 c \<or> py_isspace c)) t = t"
    using chars space_is_space by (intro re_sub_runs_id) auto
  have 3: "re_sub_runs py_isspace t = t" using sp by (rule spaced_fixed)
  have 4: "strip t = t" using ends by (rule strip_fixed)
  show ?thesis unfolding normalize_stem_loose_def Let_def by (simp only: 1 2 3 4)
qed

lemma normalize_lower: "normalize_stem_loose s = normalize_stem_loose t" if "lower s = lower t"
  using that by (simp add: normalize_stem_loose_def)


text \<open>
  Claim C9, as amended. \<^verbatim>\<open>normalize_stem_loose\<close> is idempotent on every stem. Two stems with
  the same lower-case form have the same result. Hence it does not see the case of the
  characters, the letter \<^verbatim>\<open>U+00DF\<close> apart: a stem and the same stem with the case of any of
  its characters changed, none of them that letter, have the same result.
\<close>

theorem normalize_stem_loose_idempotent_case_of_letters:
  "normalize_stem_loose (normalize_stem_loose s) = normalize_stem_loose s
   \<and> (lower s = lower u \<longrightarrow> normalize_stem_loose s = normalize_stem_loose u)
   \<and> (change_case flags s = Some t \<and> CHR 0xDF \<notin> set (swapped flags s)
      \<longrightarrow> normalize_stem_loose t = normalize_stem_loose s)"
proof (intro conjI impI)
  show "normalize_stem_loose (normalize_stem_loose s) = normalize_stem_loose s"
    by (rule normalize_fixed) (auto simp: normalize_chars normalize_spaced normalize_ends)
next
  assume "lower s = lower u"
  then show "normalize_stem_loose s = normalize_stem_loose u" by (rule normalize_lower)
next
  assume "change_case flags s = Some t \<and> CHR 0xDF \<notin> set (swapped flags s)"
  then have "lower t = lower s" using lower_change_case[of flags s t] by blast
  then show "normalize_stem_loose t = normalize_stem_loose s" by (rule normalize_lower)
qed

text \<open>The claim as stated fails on the letter \<^verbatim>\<open>U+00DF\<close>: it is lower-case, is not in
  \<^verbatim>\<open>[a-z0-9]\<close> and is replaced by a space, while its upper-case form \<^verbatim>\<open>SS\<close> is lower-cased to
  \<^verbatim>\<open>ss\<close> and kept.\<close>

theorem sharp_s_case_counterexample:
  "change_case [True] [CHR 0xDF] = Some ''SS''
   \<and> normalize_stem_loose [CHR 0xDF] = []
   \<and> normalize_stem_loose ''SS'' = ''ss''"
  by code_simp

theorem normalize_stem_loose_idempotent_case_of_letters_witness:
  "change_case [True, False, True] ''Zelda-II'' = Some ''zeLda-II''
   \<and> CHR 0xDF \<notin> set (swapped [True, False, True] ''Zelda-II'')
   \<and> normalize_stem_loose ''zeLda-II'' = normalize_stem_loose ''Zelda-II''
   \<and> lower ''Zelda-II'' = lower ''ZELDA-ii''
   \<and> normalize_stem_loose ''Zelda-II'' = normalize_stem_loose ''ZELDA-ii''
   \<and> normalize_stem_loose ''Zelda-II'' = ''zelda ii''
   \<and> normalize_stem_loose (normalize_stem_loose ''Zelda-II'') = normalize_stem_loose ''Zelda-II''"
proof -
  have c: "change_case [True, False, True] ''Zelda-II'' = Some ''zeLda-II''" by code_simp
  have n: "CHR 0xDF \<notin> set (swapped [True, False, True] ''Zelda-II'')" by code_simp
  have l: "lower ''Zelda-II'' = lower ''ZELDA-ii''" by code_simp
  have v: "normalize_stem_loose ''Zelda-II'' = ''zelda ii''" by code_simp
  from normalize_stem_loose_idempotent_case_of_letters[of "''Zelda-II''" "''ZELDA-ii''"
      "[True, False, True]" "''zeLda-II''"] c n l
  have "normalize_stem_loose (normalize_stem_loose ''Zelda-II'') = normalize_stem_loose ''Zelda-II''
        \<and> normalize_stem_loose ''Zelda-II'' = normalize_stem_loose ''ZELDA-ii''
        \<and> normalize_stem_loose ''zeLda-II'' = normalize_stem_loose ''Zelda-II''" by blast
  with c n l v show ?thesis by blast
qed

subsection \<open>The matcher\<close>

lemma prefix_scan_concat:
  "prefix_scan idx stem acc = acc @ concat (map snd (filter (\<lambda>(k, fs). prefix stem k) idx))"
  unfolding prefix_scan_def
  by (induction idx arbitrary: acc) (auto split: prod.splits)

lemma nonempty_setdefault_append:
  "nonempty_lists idx \<Longrightarrow> nonempty_lists (setdefault_append idx key f)"
  unfolding nonempty_lists_def
  by (induction idx key f rule: setdefault_append.induct) auto

lemma nonempty_index_entry:
  "nonempty_lists (fst acc) \<Longrightarrow> nonempty_lists (fst (index_entry d fz ent acc))"
  by (cases ent; cases acc) (auto simp: index_entry_def Let_def nonempty_setdefault_append)

lemma nonempty_fold_index_entry:
  "nonempty_lists (fst acc) \<Longrightarrow> nonempty_lists (fst (fold (index_entry d fz) ents acc))"
  by (induction ents arbitrary: acc) (auto simp: nonempty_index_entry)

lemma build_media_index_nonempty:
  "nonempty_lists (fst (build_media_index w d fz))"
proof (cases "listing w d")
  case None
  then show ?thesis by (simp add: build_media_index_def nonempty_lists_def)
next
  case (Some ents)
  have "nonempty_lists (fst (fold (index_entry d fz) ents ([], [], 0)))"
    by (rule nonempty_fold_index_entry) (simp add: nonempty_lists_def)
  with Some show ?thesis by (simp add: build_media_index_def)
qed

lemma idx_get_present:
  assumes "nonempty_lists idx" and "key \<in> fst ` set idx"
  shows "idx_get idx key \<noteq> []"
proof -
  from assms(2) obtain fs where "map_of idx key = Some fs"
    by (metis domD dom_map_of_conv_image_fst)
  moreover then have "(key, fs) \<in> set idx" by (rule map_of_SomeD)
  ultimately show ?thesis
    using assms(1) by (auto simp: idx_get_def nonempty_lists_def list_all_iff)
qed

lemma find_matches_in_order:
  "find_matches exact_idx norm_idx stem stem_norm fuzzy =
     (if idx_get exact_idx stem \<noteq> [] then idx_get exact_idx stem
      else if \<not> fuzzy then []
      else if idx_get norm_idx stem_norm \<noteq> [] then idx_get norm_idx stem_norm
      else concat (map snd (filter (\<lambda>(k, fs). prefix stem k) exact_idx)))"
  by (simp add: find_matches_def Let_def prefix_scan_concat)

text \<open>
  Claim C6. The matching tiers are applied in strict order and stop at the first tier that
  finds a file: the exact stem; then, with fuzzy matching only, the normalized stem; then,
  with fuzzy matching only, every file whose key in the exact index starts with the stem.
  When the stem is a key of an exact index built by \<^verbatim>\<open>build_media_index\<close>, the result is
  the exact tier's files, whatever the normalized index holds.
\<close>

theorem find_matches_tiers:
  "find_matches exact_idx norm_idx stem stem_norm fuzzy =
     (if idx_get exact_idx stem \<noteq> [] then idx_get exact_idx stem
      else if \<not> fuzzy then []
      else if idx_get norm_idx stem_norm \<noteq> [] then idx_get norm_idx stem_norm
      else concat (map snd (filter (\<lambda>(k, fs). prefix stem k) exact_idx)))
   \<and> (build_media_index w category_dir fz = (exact_idx, built_norm_idx, total_files)
        \<and> stem \<in> fst ` set exact_idx
       \<longrightarrow> find_matches exact_idx norm_idx stem stem_norm fuzzy = idx_get exact_idx stem
           \<and> idx_get exact_idx stem \<noteq> [])"
proof
  show tiers: "find_matches exact_idx norm_idx stem stem_norm fuzzy =
     (if idx_get exact_idx stem \<noteq> [] then idx_get exact_idx stem
      else if \<not> fuzzy then []
      else if idx_get norm_idx stem_norm \<noteq> [] then idx_get norm_idx stem_norm
      else concat (map snd (filter (\<lambda>(k, fs). prefix stem k) exact_idx)))"
    by (rule find_matches_in_order)
  show "build_media_index w category_dir fz = (exact_idx, built_norm_idx, total_files)
        \<and> stem \<in> fst ` set exact_idx
       \<longrightarrow> find_matches exact_idx norm_idx stem stem_norm fuzzy = idx_get exact_idx stem
           \<and> idx_get exact_idx stem \<noteq> []"
  proof
    assume a: "build_media_index w category_dir fz = (exact_idx, built_norm_idx, total_files)
        \<and> stem \<in> fst ` set exact_idx"
    then have "nonempty_lists exact_idx"
      using build_media_index_nonempty[of w category_dir fz] by simp
    with a have "idx_get exact_idx stem \<noteq> []" by (simp add: idx_get_present)
    with tiers show "find_matches exact_idx norm_idx stem stem_norm fuzzy = idx_get exact_idx stem
           \<and> idx_get exact_idx stem \<noteq> []" by simp
  qed
qed

lemma tiers_built:
  "build_media_index tiers_world [''downloaded_media'', ''switch'', ''covers''] True
     = (tiers_exact_idx, tiers_norm_idx, 2)"
  unfolding tiers_world_def tiers_exact_idx_def tiers_norm_idx_def by code_simp

theorem find_matches_tiers_witness:
  "build_media_index tiers_world [''downloaded_media'', ''switch'', ''covers''] True
     = (tiers_exact_idx, tiers_norm_idx, 2)
   \<and> ''super-mario-bros'' \<in> fst ` set tiers_exact_idx
   \<and> idx_get tiers_norm_idx ''super mario bros'' \<noteq> idx_get tiers_exact_idx ''super-mario-bros''
   \<and> find_matches tiers_exact_idx tiers_norm_idx ''super-mario-bros'' ''super mario bros'' True
       = [[''downloaded_media'', ''switch'', ''covers'', ''super-mario-bros.png'']]"
proof -
  have k: "''super-mario-bros'' \<in> fst ` set tiers_exact_idx"
    by (simp add: tiers_exact_idx_def)
  have e: "idx_get tiers_exact_idx ''super-mario-bros''
             = [[''downloaded_media'', ''switch'', ''covers'', ''super-mario-bros.png'']]"
    by (simp add: tiers_exact_idx_def idx_get_def)
  have n: "idx_get tiers_norm_idx ''super mario bros'' \<noteq> idx_get tiers_exact_idx ''super-mario-bros''"
    by (simp add: tiers_exact_idx_def tiers_norm_idx_def idx_get_def)
  from find_matches_tiers[of tiers_exact_idx tiers_norm_idx "''super-mario-bros''" "''super mario bros''" True
      tiers_world "[''downloaded_media'', ''switch'', ''covers'']" True tiers_norm_idx 2]
    tiers_built k
  have "find_matches tiers_exact_idx tiers_norm_idx ''super-mario-bros'' ''super mario bros'' True
          = idx_get tiers_exact_idx ''super-mario-bros''" by blast
  with tiers_built k e n show ?thesis by simp
qed

subsection \<open>Category inference\<close>

lemma first_index_append: "x \<notin> set pre \<Longrightarrow> first_index (pre @ x # rest) x = length pre"
  unfolding first_index_def by (induction pre) auto

lemma first_index_less: "x \<in> set xs \<Longrightarrow> first_index xs x < length xs"
  unfolding first_index_def by (induction xs) auto

lemma first_index_nth: "x \<in> set xs \<Longrightarrow> xs ! first_index xs x = x"
  unfolding first_index_def by (induction xs) auto

lemma first_index_take: "x \<notin> set (take (first_index xs x) xs)"
  unfolding first_index_def by (induction xs) auto

lemma case1_applies_iff:
  "case1_applies parts system \<longleftrightarrow>
     (\<exists>pre s c rest. parts = pre @ ''downloaded_media'' # s # c # rest
        \<and> ''downloaded_media'' \<notin> set pre \<and> lower s = lower system)"
proof
  assume a: "case1_applies parts system"
  let ?i = "first_index parts ''downloaded_media''"
  from a have m: "''downloaded_media'' \<in> set parts" and l: "?i + 2 < length parts"
    and s: "lower (parts ! (?i + 1)) = lower system" by (auto simp: case1_applies_def)
  have d0: "drop ?i parts = parts ! ?i # drop (Suc ?i) parts"
    using l by (simp add: Cons_nth_drop_Suc)
  have d1: "drop (Suc ?i) parts = parts ! (?i + 1) # drop (Suc (Suc ?i)) parts"
    using l by (simp add: Cons_nth_drop_Suc)
  have d2: "drop (Suc (Suc ?i)) parts = parts ! (?i + 2) # drop (Suc (Suc (Suc ?i))) parts"
    using l by (simp add: Cons_nth_drop_Suc)
  have "parts = take ?i parts @ drop ?i parts" by simp
  then have "parts = take ?i parts @ ''downloaded_media'' # parts ! (?i + 1) # parts ! (?i + 2)
                       # drop (Suc (Suc (Suc ?i))) parts"
    using first_index_nth[OF m] by (simp only: d0 d1 d2)
  with s first_index_take[of "''downloaded_media''" parts]
  show "\<exists>pre s c rest. parts = pre @ ''downloaded_media'' # s # c # rest
        \<and> ''downloaded_media'' \<notin> set pre \<and> lower s = lower system" by blast
next
  assume "\<exists>pre s c rest. parts = pre @ ''downloaded_media'' # s # c # rest
        \<and> ''downloaded_media'' \<notin> set pre \<and> lower s = lower system"
  then obtain pre s c rest where p: "parts = pre @ ''downloaded_media'' # s # c # rest"
    and n: "''downloaded_media'' \<notin> set pre" and s: "lower s = lower system" by blast
  from n have "first_index parts ''downloaded_media'' = length pre"
    unfolding p by (rule first_index_append)
  with p s show "case1_applies parts system"
    by (simp add: case1_applies_def nth_append)
qed

lemma case1_third:
  assumes "parts = pre @ ''downloaded_media'' # s # c # rest" and "''downloaded_media'' \<notin> set pre"
  shows "parts ! (first_index parts ''downloaded_media'' + 2) = c"
proof -
  from assms(2) have "first_index parts ''downloaded_media'' = length pre"
    unfolding assms(1) by (rule first_index_append)
  with assms(1) show ?thesis by (simp add: nth_append)
qed

lemma case2_applies_iff:
  "case2_applies lowered system \<longleftrightarrow>
     (\<exists>pre c rest. lowered = pre @ lower system # c # rest \<and> lower system \<notin> set pre)"
proof
  assume a: "case2_applies lowered system"
  let ?i = "first_index lowered (lower system)"
  from a have m: "lower system \<in> set lowered" and l: "?i + 1 < length lowered"
    by (auto simp: case2_applies_def)
  have d0: "drop ?i lowered = lowered ! ?i # drop (Suc ?i) lowered"
    using l by (simp add: Cons_nth_drop_Suc)
  have d1: "drop (Suc ?i) lowered = lowered ! (?i + 1) # drop (Suc (Suc ?i)) lowered"
    using l by (simp add: Cons_nth_drop_Suc)
  have "lowered = take ?i lowered @ drop ?i lowered" by simp
  then have "lowered = take ?i lowered @ lower system # lowered ! (?i + 1) # drop (Suc (Suc ?i)) lowered"
    using first_index_nth[OF m] by (simp only: d0 d1)
  with first_index_take[of "lower system" lowered]
  show "\<exists>pre c rest. lowered = pre @ lower system # c # rest \<and> lower system \<notin> set pre" by blast
next
  assume "\<exists>pre c rest. lowered = pre @ lower system # c # rest \<and> lower system \<notin> set pre"
  then obtain pre c rest where p: "lowered = pre @ lower system # c # rest"
    and n: "lower system \<notin> set pre" by blast
  from n have "first_index lowered (lower system) = length pre"
    unfolding p by (rule first_index_append)
  with p show "case2_applies lowered system"
    by (simp add: case2_applies_def)
qed

lemma case2_second:
  assumes "lowered = pre @ x # c # rest" and "x \<notin> set pre"
  shows "lowered ! (first_index lowered x + 1) = c"
proof -
  from assms(2) have "first_index lowered x = length pre"
    unfolding assms(1) by (rule first_index_append)
  with assms(1) show ?thesis by (simp add: nth_append)
qed

lemma known_or_none_Some: "known_or_none c = Some d \<Longrightarrow> d = c \<and> d \<in> set MEDIA_CATEGORIES_ALL"
  by (auto simp: known_or_none_def split: if_splits)

lemma find_Some_known: "List.find P xs = Some x \<Longrightarrow> P x \<and> x \<in> set xs"
  by (induction xs) (auto split: if_splits)

lemma parse_category_unfold:
  "txt \<noteq> [] \<Longrightarrow>
   parse_category_from_media_ref txt system =
     (if case1_applies (ref_parts txt) system
      then known_or_none (lower (ref_parts txt ! (first_index (ref_parts txt) ''downloaded_media'' + 2)))
      else if case2_applies (map lower (ref_parts txt)) system
      then known_or_none (map lower (ref_parts txt) ! (first_index (map lower (ref_parts txt)) (lower system) + 1))
      else List.find (\<lambda>p. p \<in> set MEDIA_CATEGORIES_ALL) (map lower (ref_parts txt)))"
  by (simp add: parse_category_from_media_ref_def Let_def)

lemma parse_category_known:
  assumes "parse_category_from_media_ref txt system = Some c"
  shows "c \<in> set MEDIA_CATEGORIES_ALL"
proof -
  from assms have t: "txt \<noteq> []" by (auto simp: parse_category_from_media_ref_def)
  from assms show ?thesis
    unfolding parse_category_unfold[OF t]
    by (auto split: if_splits dest: known_or_none_Some find_Some_known)
qed

lemma expected_step_subset:
  "expected \<subseteq> set selected \<inter> set MEDIA_CATEGORIES_ALL \<Longrightarrow>
   expected_step system selected child expected \<subseteq> set selected \<inter> set MEDIA_CATEGORIES_ALL"
  unfolding expected_step_def Let_def
  by (auto split: option.splits if_splits dest: parse_category_known)

lemma fold_expected_step_subset:
  "expected \<subseteq> set selected \<inter> set MEDIA_CATEGORIES_ALL \<Longrightarrow>
   fold (expected_step system selected) cs expected \<subseteq> set selected \<inter> set MEDIA_CATEGORIES_ALL"
proof (induction cs arbitrary: expected)
  case Nil
  then show ?case by simp
next
  case (Cons c cs)
  from Cons.prems have "expected_step system selected c expected \<subseteq> set selected \<inter> set MEDIA_CATEGORIES_ALL"
    by (rule expected_step_subset)
  then have "fold (expected_step system selected) cs (expected_step system selected c expected)
               \<subseteq> set selected \<inter> set MEDIA_CATEGORIES_ALL" by (rule Cons.IH)
  then show ?case by (simp only: fold_simps)
qed

lemma expected_categories_subset:
  "expected_categories_from_game_xml game system selected \<subseteq> set selected \<inter> set MEDIA_CATEGORIES_ALL"
  unfolding expected_categories_from_game_xml_def
  by (rule fold_expected_step_subset) simp

text \<open>
  Claim C4, as amended. For a non-empty media reference the three cases are tried in order
  and the first two commit: when the first segment \<^verbatim>\<open>downloaded_media\<close> is followed by the
  system and one more segment, the result is that segment if it is a known category and
  nothing otherwise; else, when the first segment equal to the system is followed by one
  more segment, the result is that segment if it is a known category and nothing
  otherwise; only when neither holds is the result the first segment that is a known
  category. The two tests are the decompositions stated. A category is in the expected set
  only if it is a selected and known category.
\<close>

theorem parse_category_ordered_cases:
  "(txt \<noteq> [] \<longrightarrow>
     (\<forall>pre s c rest.
         ref_parts txt = pre @ ''downloaded_media'' # s # c # rest
         \<and> ''downloaded_media'' \<notin> set pre \<and> lower s = lower system
        \<longrightarrow> parse_category_from_media_ref txt system =
              (if lower c \<in> set MEDIA_CATEGORIES_ALL then Some (lower c) else None))
     \<and> (\<forall>pre c rest.
         \<not> case1_applies (ref_parts txt) system
         \<and> map lower (ref_parts txt) = pre @ lower system # c # rest \<and> lower system \<notin> set pre
        \<longrightarrow> parse_category_from_media_ref txt system =
              (if c \<in> set MEDIA_CATEGORIES_ALL then Some c else None))
     \<and> (\<not> case1_applies (ref_parts txt) system \<and> \<not> case2_applies (map lower (ref_parts txt)) system
        \<longrightarrow> parse_category_from_media_ref txt system =
              List.find (\<lambda>p. p \<in> set MEDIA_CATEGORIES_ALL) (map lower (ref_parts txt))))
   \<and> (case1_applies (ref_parts txt) system \<longleftrightarrow>
        (\<exists>pre s c rest. ref_parts txt = pre @ ''downloaded_media'' # s # c # rest
           \<and> ''downloaded_media'' \<notin> set pre \<and> lower s = lower system))
   \<and> (case2_applies (map lower (ref_parts txt)) system \<longleftrightarrow>
        (\<exists>pre c rest. map lower (ref_parts txt) = pre @ lower system # c # rest
           \<and> lower system \<notin> set pre))
   \<and> expected_categories_from_game_xml game system selected_categories
        \<subseteq> set selected_categories \<inter> set MEDIA_CATEGORIES_ALL"
proof (intro conjI impI allI)
  fix pre s c rest
  assume t: "txt \<noteq> []"
    and a: "ref_parts txt = pre @ ''downloaded_media'' # s # c # rest
         \<and> ''downloaded_media'' \<notin> set pre \<and> lower s = lower system"
  then have "case1_applies (ref_parts txt) system" using case1_applies_iff by blast
  moreover from a have "ref_parts txt ! (first_index (ref_parts txt) ''downloaded_media'' + 2) = c"
    by (intro case1_third[of _ pre s c rest]) simp_all
  ultimately show "parse_category_from_media_ref txt system =
              (if lower c \<in> set MEDIA_CATEGORIES_ALL then Some (lower c) else None)"
    by (simp only: parse_category_unfold[OF t] if_True known_or_none_def)
next
  fix pre c rest
  assume t: "txt \<noteq> []"
    and a: "\<not> case1_applies (ref_parts txt) system
         \<and> map lower (ref_parts txt) = pre @ lower system # c # rest \<and> lower system \<notin> set pre"
  then have "case2_applies (map lower (ref_parts txt)) system" using case2_applies_iff by blast
  moreover from a have "\<not> case1_applies (ref_parts txt) system" by simp
  moreover from a have "map lower (ref_parts txt) ! (first_index (map lower (ref_parts txt)) (lower system) + 1) = c"
    by (intro case2_second[of _ pre _ c rest]) simp_all
  ultimately show "parse_category_from_media_ref txt system =
              (if c \<in> set MEDIA_CATEGORIES_ALL then Some c else None)"
    by (simp only: parse_category_unfold[OF t] if_True if_False known_or_none_def)
next
  assume t: "txt \<noteq> []"
    and n: "\<not> case1_applies (ref_parts txt) system \<and> \<not> case2_applies (map lower (ref_parts txt)) system"
  from n have "case1_applies (ref_parts txt) system = False"
    and "case2_applies (map lower (ref_parts txt)) system = False" by simp_all
  then show "parse_category_from_media_ref txt system =
              List.find (\<lambda>p. p \<in> set MEDIA_CATEGORIES_ALL) (map lower (ref_parts txt))"
    by (simp only: parse_category_unfold[OF t] if_False)
next
  show "case1_applies (ref_parts txt) system \<longleftrightarrow>
        (\<exists>pre s c rest. ref_parts txt = pre @ ''downloaded_media'' # s # c # rest
           \<and> ''downloaded_media'' \<notin> set pre \<and> lower s = lower system)"
    by (rule case1_applies_iff)
next
  show "case2_applies (map lower (ref_parts txt)) system \<longleftrightarrow>
        (\<exists>pre c rest. map lower (ref_parts txt) = pre @ lower system # c # rest
           \<and> lower system \<notin> set pre)"
    by (rule case2_applies_iff)
next
  show "expected_categories_from_game_xml game system selected_categories
        \<subseteq> set selected_categories \<inter> set MEDIA_CATEGORIES_ALL"
    by (rule expected_categories_subset)
qed


text \<open>The claim as stated fails: in this reference no rule of the specification matches at
  rule 1 or rule 2, the segment \<^verbatim>\<open>covers\<close> is a known category, and the function returns
  nothing, because the system is followed by the segment \<^verbatim>\<open>images\<close>.\<close>

theorem parse_category_no_fallthrough_counterexample:
  "spec_rule1 (ref_parts ''./switch/images/covers/Celeste.png'') ''switch'' = None
   \<and> spec_rule2 (ref_parts ''./switch/images/covers/Celeste.png'') ''switch'' = None
   \<and> spec_rule3 (ref_parts ''./switch/images/covers/Celeste.png'') = Some ''covers''
   \<and> parse_category_from_media_ref ''./switch/images/covers/Celeste.png'' ''switch'' = None"
  by code_simp

theorem parse_category_ordered_cases_witness:
  "parse_category_from_media_ref ''./downloaded_media/switch/covers/Celeste.png'' ''Switch'' = Some ''covers''
   \<and> parse_category_from_media_ref ''Switch/fanart/Celeste.png'' ''switch'' = Some ''fanart''
   \<and> parse_category_from_media_ref ''./media/screenshots/Celeste.png'' ''switch'' = Some ''screenshots''
   \<and> parse_category_from_media_ref ''./downloaded_media/switch/images/covers/Celeste.png'' ''switch'' = None
   \<and> expected_categories_from_game_xml
         (Element ''game'' None
            [Element ''path'' (Some ''./Celeste.xci'') [],
             Element ''image'' (Some ''./media/screenshots/Celeste.png'') [],
             Element ''video'' (Some ''./media/videos/Celeste.mp4'') []])
         ''switch'' [''covers'', ''screenshots'']
       \<subseteq> set [''covers'', ''screenshots''] \<inter> set MEDIA_CATEGORIES_ALL"
proof -
  let ?t1 = "''./downloaded_media/switch/covers/Celeste.png''"
  let ?t2 = "''Switch/fanart/Celeste.png''"
  let ?t3 = "''./media/screenshots/Celeste.png''"
  let ?t4 = "''./downloaded_media/switch/images/covers/Celeste.png''"
  have p1: "ref_parts ?t1 = [] @ ''downloaded_media'' # ''switch'' # ''covers'' # [''Celeste.png'']
            \<and> ''downloaded_media'' \<notin> set [] \<and> lower ''switch'' = lower ''Switch''"
    by code_simp
  have k1: "(if lower ''covers'' \<in> set MEDIA_CATEGORIES_ALL then Some (lower ''covers'') else None)
              = Some ''covers''" by code_simp
  have n1: "?t1 \<noteq> []" by simp
  from parse_category_ordered_cases[of ?t1 "''Switch''"] n1 p1
  have "parse_category_from_media_ref ?t1 ''Switch'' =
          (if lower ''covers'' \<in> set MEDIA_CATEGORIES_ALL then Some (lower ''covers'') else None)"
    by blast
  with k1 have r1: "parse_category_from_media_ref ?t1 ''Switch'' = Some ''covers''" by simp
  have p2: "\<not> case1_applies (ref_parts ?t2) ''switch''
            \<and> map lower (ref_parts ?t2) = [] @ lower ''switch'' # ''fanart'' # [''celeste.png'']
            \<and> lower ''switch'' \<notin> set []"
    by code_simp
  have k2: "(if ''fanart'' \<in> set MEDIA_CATEGORIES_ALL then Some ''fanart'' else None) = Some ''fanart''"
    by code_simp
  have n2: "?t2 \<noteq> []" by simp
  from parse_category_ordered_cases[of ?t2 "''switch''"] n2 p2
  have "parse_category_from_media_ref ?t2 ''switch'' =
          (if ''fanart'' \<in> set MEDIA_CATEGORIES_ALL then Some ''fanart'' else None)"
    by blast
  with k2 have r2: "parse_category_from_media_ref ?t2 ''switch'' = Some ''fanart''" by simp
  have p3: "\<not> case1_applies (ref_parts ?t3) ''switch''
            \<and> \<not> case2_applies (map lower (ref_parts ?t3)) ''switch''"
    by code_simp
  have k3: "List.find (\<lambda>p. p \<in> set MEDIA_CATEGORIES_ALL) (map lower (ref_parts ?t3)) = Some ''screenshots''"
    by code_simp
  have n3: "?t3 \<noteq> []" by simp
  from parse_category_ordered_cases[of ?t3 "''switch''"] n3 p3
  have "parse_category_from_media_ref ?t3 ''switch'' =
          List.find (\<lambda>p. p \<in> set MEDIA_CATEGORIES_ALL) (map lower (ref_parts ?t3))"
    by blast
  with k3 have r3: "parse_category_from_media_ref ?t3 ''switch'' = Some ''screenshots''" by simp
  have p4: "ref_parts ?t4 = [] @ ''downloaded_media'' # ''switch'' # ''images'' # [''covers'', ''Celeste.png'']
            \<and> ''downloaded_media'' \<notin> set [] \<and> lower ''switch'' = lower ''switch''"
    by code_simp
  have k4: "(if lower ''images'' \<in> set MEDIA_CATEGORIES_ALL then Some (lower ''images'') else None)
              = None" by code_simp
  have n4: "?t4 \<noteq> []" by simp
  from parse_category_ordered_cases[of ?t4 "''switch''"] n4 p4
  have "parse_category_from_media_ref ?t4 ''switch'' =
          (if lower ''images'' \<in> set MEDIA_CATEGORIES_ALL then Some (lower ''images'') else None)"
    by blast
  with k4 have r4: "parse_category_from_media_ref ?t4 ''switch'' = None" by simp
  from parse_category_ordered_cases[of "[]" "''switch''"
      "Element ''game'' None
            [Element ''path'' (Some ''./Celeste.xci'') [],
             Element ''image'' (Some ''./media/screenshots/Celeste.png'') [],
             Element ''video'' (Some ''./media/videos/Celeste.mp4'') []]" "[''covers'', ''screenshots'']"]
  have r5: "expected_categories_from_game_xml
         (Element ''game'' None
            [Element ''path'' (Some ''./Celeste.xci'') [],
             Element ''image'' (Some ''./media/screenshots/Celeste.png'') [],
             Element ''video'' (Some ''./media/videos/Celeste.mp4'') []])
         ''switch'' [''covers'', ''screenshots'']
       \<subseteq> set [''covers'', ''screenshots''] \<inter> set MEDIA_CATEGORIES_ALL" by blast
  from r1 r2 r3 r4 r5 show ?thesis by blast
qed

subsection \<open>Validation of the selected categories\<close>

lemma filter_invalid_empty:
  "filter (\<lambda>m. m \<notin> set A) xs = [] \<longleftrightarrow> set xs \<subseteq> set A"
  by (induction xs) auto

text \<open>
  Claim C8, as amended. The recognized category names are the twelve names of
  \<^verbatim>\<open>MEDIA_CATEGORIES_ALL\<close>, written without hyphens. A selection of such names only is
  accepted as it is; a selection with any other name raises \<^verbatim>\<open>SystemExit\<close> with the invalid
  names, and \<^verbatim>\<open>main\<close> ends with that error and the card untouched, before any system is
  processed.
\<close>

theorem resolve_media_categories_validation:
  "set MEDIA_CATEGORIES_ALL =
     {''3dboxes'', ''backcovers'', ''covers'', ''custom'', ''fanart'', ''manuals'', ''marquees'',
      ''miximages'', ''physicalmedia'', ''screenshots'', ''titlescreens'', ''videos''}
   \<and> (load_profiles w = Inr profiles
        \<and> set (requested_media_categories profiles a) \<subseteq> set MEDIA_CATEGORIES_ALL
       \<longrightarrow> resolve_media_categories w a = Inr (requested_media_categories profiles a))
   \<and> (load_profiles w = Inr profiles
        \<and> \<not> set (requested_media_categories profiles a) \<subseteq> set MEDIA_CATEGORIES_ALL
       \<longrightarrow> resolve_media_categories w a =
             Inl (SystemExit (InvalidMediaCategories
                    (filter (\<lambda>m. m \<notin> set MEDIA_CATEGORIES_ALL) (requested_media_categories profiles a))))
           \<and> (validate_sd_root w = Inr ()
                \<longrightarrow> main w a sd =
                      Inl (SystemExit (InvalidMediaCategories
                             (filter (\<lambda>m. m \<notin> set MEDIA_CATEGORIES_ALL)
                                (requested_media_categories profiles a))), sd)))"
proof (intro conjI impI)
  show "set MEDIA_CATEGORIES_ALL =
     {''3dboxes'', ''backcovers'', ''covers'', ''custom'', ''fanart'', ''manuals'', ''marquees'',
      ''miximages'', ''physicalmedia'', ''screenshots'', ''titlescreens'', ''videos''}"
    unfolding MEDIA_CATEGORIES_ALL_def by (simp only: list.set)
next
  assume "load_profiles w = Inr profiles
        \<and> set (requested_media_categories profiles a) \<subseteq> set MEDIA_CATEGORIES_ALL"
  then show "resolve_media_categories w a = Inr (requested_media_categories profiles a)"
    by (simp add: resolve_media_categories_def Let_def filter_invalid_empty)
next
  assume a: "load_profiles w = Inr profiles
        \<and> \<not> set (requested_media_categories profiles a) \<subseteq> set MEDIA_CATEGORIES_ALL"
  then show r: "resolve_media_categories w a =
             Inl (SystemExit (InvalidMediaCategories
                    (filter (\<lambda>m. m \<notin> set MEDIA_CATEGORIES_ALL) (requested_media_categories profiles a))))"
    by (simp add: resolve_media_categories_def Let_def filter_invalid_empty)
  assume "validate_sd_root w = Inr ()"
  with r show "main w a sd =
                      Inl (SystemExit (InvalidMediaCategories
                             (filter (\<lambda>m. m \<notin> set MEDIA_CATEGORIES_ALL)
                                (requested_media_categories profiles a))), sd)"
    by (simp add: main_def)
qed

text \<open>The claim as stated fails: the selection of the twelve names as the specification
  spells them is refused, for the six hyphenated names.\<close>

theorem spec_category_names_rejected_counterexample:
  "resolve_media_categories plain_world
     (plain_args\<lparr>arg_media := ''3d-boxes, back-covers, covers, custom, fan-art, manuals, marquees, mix-images, physical-media, screenshots, title-screens, videos''\<rparr>)
   = Inl (SystemExit (InvalidMediaCategories
            [''3d-boxes'', ''back-covers'', ''fan-art'', ''mix-images'', ''physical-media'', ''title-screens'']))"
  unfolding plain_world_def plain_args_def by code_simp

theorem resolve_media_categories_validation_witness:
  "resolve_media_categories plain_world (plain_args\<lparr>arg_media := ''covers, 3dboxes''\<rparr>)
     = Inr [''covers'', ''3dboxes'']
   \<and> main plain_world (plain_args\<lparr>arg_media := ''covers,boxart''\<rparr>) empty_card
     = Inl (SystemExit (InvalidMediaCategories [''boxart'']), empty_card)"
proof -
  let ?a1 = "plain_args\<lparr>arg_media := ''covers, 3dboxes''\<rparr>"
  let ?a2 = "plain_args\<lparr>arg_media := ''covers,boxart''\<rparr>"
  have l: "load_profiles plain_world = Inr Map.empty"
    by (simp add: load_profiles_def plain_world_def)
  have v: "validate_sd_root plain_world = Inr ()"
    by (simp add: validate_sd_root_def plain_world_def)
  have q1: "requested_media_categories Map.empty ?a1 = [''covers'', ''3dboxes'']"
    unfolding plain_args_def by code_simp
  have q2: "requested_media_categories Map.empty ?a2 = [''covers'', ''boxart'']"
    unfolding plain_args_def by code_simp
  have s1: "set [''covers'', ''3dboxes''] \<subseteq> set MEDIA_CATEGORIES_ALL" by code_simp
  have s2: "\<not> set [''covers'', ''boxart''] \<subseteq> set MEDIA_CATEGORIES_ALL" by code_simp
  have f2: "filter (\<lambda>m. m \<notin> set MEDIA_CATEGORIES_ALL) [''covers'', ''boxart''] = [''boxart'']"
    by code_simp
  from resolve_media_categories_validation[of plain_world Map.empty ?a1] l s1
  have r1: "resolve_media_categories plain_world ?a1 = Inr [''covers'', ''3dboxes'']"
    unfolding q1 by blast
  from resolve_media_categories_validation[of plain_world Map.empty ?a2 empty_card] l s2 v
  have r2: "main plain_world ?a2 empty_card = Inl (SystemExit (InvalidMediaCategories [''boxart'']), empty_card)"
    unfolding q2 f2 by blast
  from r1 r2 show ?thesis by blast
qed

subsection \<open>The copy primitive\<close>

lemma files_ensure_dir: "files (ensure_dir p dry sd) = files sd"
  by (simp add: ensure_dir_def)

lemma printed_ensure_dir: "printed (ensure_dir p dry sd) = printed sd"
  by (simp add: ensure_dir_def)

lemma documents_ensure_dir: "documents (ensure_dir p dry sd) = documents sd"
  by (simp add: ensure_dir_def)

text \<open>
  Claim C7. For a source that exists: when the destination exists, both sizes can be read and
  they are equal, \<^verbatim>\<open>copy_file\<close> reports \<^verbatim>\<open>skipped\<close> and leaves the files of the card as they
  are; when the destination exists and a \<^verbatim>\<open>stat\<close> raises \<^verbatim>\<open>OSError\<close>, the file is copied;
  otherwise (no destination, or another size) the file is copied. A copy gives the
  destination the bytes and the modification time of the source and reports \<^verbatim>\<open>copied\<close>.
  The dry run reports the same result and leaves the files as they are.
\<close>

theorem copy_file_skip_or_copy:
  "nas_file w src = Some s \<longrightarrow>
     (files sd dst = Some d \<and> \<not> dst_stat_fails w dst \<and> \<not> src_stat_fails w src
        \<and> st_size d = st_size s
      \<longrightarrow> copy_file w src dst dry_run sd = Inr (''skipped'', ensure_dir (parent dst) dry_run sd)
          \<and> files (ensure_dir (parent dst) dry_run sd) = files sd)
   \<and> (files sd dst = Some d \<and> (dst_stat_fails w dst \<or> src_stat_fails w src)
      \<longrightarrow> copy_file w src dst False sd =
            Inr (''copied'', (ensure_dir (parent dst) False sd)\<lparr>files := (files sd)(dst \<mapsto> s)\<rparr>))
   \<and> (files sd dst = None \<or> (files sd dst = Some d \<and> st_size d \<noteq> st_size s)
      \<longrightarrow> copy_file w src dst False sd =
            Inr (''copied'', (ensure_dir (parent dst) False sd)\<lparr>files := (files sd)(dst \<mapsto> s)\<rparr>))
   \<and> (\<exists>r sd'. copy_file w src dst True sd = Inr (r, sd') \<and> files sd' = files sd
         \<and> (\<exists>sd''. copy_file w src dst False sd = Inr (r, sd'')))"
  by (auto simp: copy_file_def Let_def same_size_def files_ensure_dir split: option.splits)


theorem copy_file_skip_or_copy_witness:
  "copy_file copy_world [''downloaded_media'', ''switch'', ''covers'', ''Celeste.png'']
     [''ES-DE'', ''downloaded_media'', ''switch'', ''covers'', ''Celeste.png''] False copy_card
     = Inr (''skipped'', ensure_dir [''ES-DE'', ''downloaded_media'', ''switch'', ''covers''] False copy_card)
   \<and> copy_file copy_world [''downloaded_media'', ''switch'', ''covers'', ''Hades.png'']
     [''ES-DE'', ''downloaded_media'', ''switch'', ''covers'', ''Hades.png''] False copy_card
     = Inr (''copied'',
            (ensure_dir [''ES-DE'', ''downloaded_media'', ''switch'', ''covers''] False copy_card)
              \<lparr>files := (files copy_card)
                 ([''ES-DE'', ''downloaded_media'', ''switch'', ''covers'', ''Hades.png'']
                    \<mapsto> \<lparr>content = ''hades'', mtime = 8\<rparr>)\<rparr>)
   \<and> copy_file copy_world [''downloaded_media'', ''switch'', ''covers'', ''Celeste.png'']
     [''ES-DE'', ''downloaded_media'', ''switch'', ''covers'', ''Celeste.png''] False empty_card
     = Inr (''copied'',
            (ensure_dir [''ES-DE'', ''downloaded_media'', ''switch'', ''covers''] False empty_card)
              \<lparr>files := (files empty_card)
                 ([''ES-DE'', ''downloaded_media'', ''switch'', ''covers'', ''Celeste.png'']
                    \<mapsto> \<lparr>content = ''new'', mtime = 7\<rparr>)\<rparr>)"
proof -
  let ?srcC = "[''downloaded_media'', ''switch'', ''covers'', ''Celeste.png'']"
  let ?dstC = "[''ES-DE'', ''downloaded_media'', ''switch'', ''covers'', ''Celeste.png'']"
  let ?srcH = "[''downloaded_media'', ''switch'', ''covers'', ''Hades.png'']"
  let ?dstH = "[''ES-DE'', ''downloaded_media'', ''switch'', ''covers'', ''Hades.png'']"
  let ?new = "\<lparr>content = ''new'', mtime = 7\<rparr>"
  let ?old = "\<lparr>content = ''old'', mtime = 3\<rparr>"
  let ?hades = "\<lparr>content = ''hades'', mtime = 8\<rparr>"
  let ?hades_old = "\<lparr>content = ''hades'', mtime = 4\<rparr>"
  have pC: "parent ?dstC = [''ES-DE'', ''downloaded_media'', ''switch'', ''covers'']"
    by (simp add: parent_def)
  have pH: "parent ?dstH = [''ES-DE'', ''downloaded_media'', ''switch'', ''covers'']"
    by (simp add: parent_def)
  have nC: "nas_file copy_world ?srcC = Some ?new"
    by (simp add: nas_file_def copy_world_def)
  have nH: "nas_file copy_world ?srcH = Some ?hades"
    by (simp add: nas_file_def copy_world_def)
  have h1: "files copy_card ?dstC = Some ?old \<and> \<not> dst_stat_fails copy_world ?dstC
              \<and> \<not> src_stat_fails copy_world ?srcC \<and> st_size ?old = st_size ?new"
    by (simp add: copy_card_def copy_world_def st_size_def)
  have h2: "files copy_card ?dstH = Some ?hades_old
              \<and> (dst_stat_fails copy_world ?dstH \<or> src_stat_fails copy_world ?srcH)"
    by (simp add: copy_card_def copy_world_def)
  have h3: "files empty_card ?dstC = None"
    by (simp add: empty_card_def)
  from copy_file_skip_or_copy[of copy_world ?srcC ?new copy_card ?dstC ?old False] nC h1
  have r1: "copy_file copy_world ?srcC ?dstC False copy_card
              = Inr (''skipped'', ensure_dir (parent ?dstC) False copy_card)" by blast
  from copy_file_skip_or_copy[of copy_world ?srcH ?hades copy_card ?dstH ?hades_old False] nH h2
  have r2: "copy_file copy_world ?srcH ?dstH False copy_card
              = Inr (''copied'', (ensure_dir (parent ?dstH) False copy_card)
                       \<lparr>files := (files copy_card)(?dstH \<mapsto> ?hades)\<rparr>)" by blast
  from copy_file_skip_or_copy[of copy_world ?srcC ?new empty_card ?dstC ?old False] nC h3
  have r3: "copy_file copy_world ?srcC ?dstC False empty_card
              = Inr (''copied'', (ensure_dir (parent ?dstC) False empty_card)
                       \<lparr>files := (files empty_card)(?dstC \<mapsto> ?new)\<rparr>)" by blast
  from r1 r2 r3 show ?thesis unfolding pC pH by blast
qed

subsection \<open>Loops that can raise\<close>

lemma for_loop_invariant:
  assumes "for_loop body xs s = Inr s'" and "I s"
    and "\<And>x s s'. x \<in> set xs \<Longrightarrow> I s \<Longrightarrow> body x s = Inr s' \<Longrightarrow> I s'"
  shows "I s'"
  using assms
proof (induction xs arbitrary: s)
  case Nil
  then show ?case by simp
next
  case (Cons x xs)
  from Cons.prems(1) obtain s1 where b: "body x s = Inr s1" and r: "for_loop body xs s1 = Inr s'"
    by (auto split: sum.splits)
  have i1: "I s1" by (rule Cons.prems(3)[of x s s1]) (simp_all add: Cons.prems(2) b)
  show ?case
  proof (rule Cons.IH[OF r i1])
    fix y t t'
    assume "y \<in> set xs" and "I t" and "body y t = Inr t'"
    then show "I t'" using Cons.prems(3)[of y t t'] by simp
  qed
qed

lemma for_loop_total:
  assumes "I s"
    and "\<And>x s. x \<in> set xs \<Longrightarrow> I s \<Longrightarrow> \<exists>s'. body x s = Inr s' \<and> I s'"
  shows "\<exists>s'. for_loop body xs s = Inr s' \<and> I s'"
  using assms
proof (induction xs arbitrary: s)
  case Nil
  then show ?case by simp
next
  case (Cons x xs)
  from Cons.prems(2)[OF _ Cons.prems(1)] obtain s1 where b: "body x s = Inr s1" and i: "I s1"
    by auto
  from Cons.IH[OF i] Cons.prems(2) obtain s' where "for_loop body xs s1 = Inr s'" and "I s'"
    by auto
  with b show ?case by simp
qed

lemma for_loop_returns:
  assumes "\<And>x s. x \<in> set xs \<Longrightarrow> \<exists>s'. body x s = Inr s'"
  shows "\<exists>s'. for_loop body xs s = Inr s'"
proof -
  have "\<exists>s'. for_loop body xs s = Inr s' \<and> True"
  proof (rule for_loop_total[where I = "\<lambda>s. True"])
    fix x s
    assume "x \<in> set xs"
    from assms[OF this, of s] show "\<exists>s'. body x s = Inr s' \<and> True" by simp
  qed simp
  then show ?thesis by simp
qed

lemma for_loop_append:
  "for_loop body (xs @ ys) s =
     (case for_loop body xs s of Inl e \<Rightarrow> Inl e | Inr s' \<Rightarrow> for_loop body ys s')"
  by (induction xs arbitrary: s) (auto split: sum.splits)

subsection \<open>The index holds files of its directory\<close>

lemma nas_file_in_dir:
  "nas_file w (d @ [n]) = (case listing w d of None \<Rightarrow> None | Some es \<Rightarrow> lookup_file es n)"
  by (simp add: nas_file_def split: option.splits)

lemma lookup_file_member: "FileEnt n node \<in> set es \<Longrightarrow> lookup_file es n \<noteq> None"
  by (induction es n rule: lookup_file.induct) auto

lemma index_ok_setdefault_append:
  "index_ok w d idx \<Longrightarrow> from_dir w d f \<Longrightarrow> index_ok w d (setdefault_append idx key f)"
  unfolding index_ok_def
  by (induction idx key f rule: setdefault_append.induct) (auto split: if_splits)

lemma index_ok_index_entry:
  assumes "listing w d = Some ents" and "ent \<in> set ents"
    and "index_ok w d ex \<and> index_ok w d nm"
  shows "index_ok w d (fst (index_entry d fz ent (ex, nm, t)))
         \<and> index_ok w d (fst (snd (index_entry d fz ent (ex, nm, t))))"
proof (cases ent)
  case (DirEnt n)
  with assms(3) show ?thesis by (simp add: index_entry_def)
next
  case (FileEnt n node)
  with assms(1,2) have "from_dir w d (d @ [n])"
    by (auto simp: from_dir_def nas_file_in_dir dest: lookup_file_member)
  with assms(3) FileEnt show ?thesis
    by (simp add: index_entry_def Let_def index_ok_setdefault_append)
qed

lemma index_ok_fold:
  assumes "listing w d = Some ents" and "set es \<subseteq> set ents"
    and "index_ok w d (fst acc) \<and> index_ok w d (fst (snd acc))"
  shows "index_ok w d (fst (fold (index_entry d fz) es acc))
         \<and> index_ok w d (fst (snd (fold (index_entry d fz) es acc)))"
  using assms(2,3)
proof (induction es arbitrary: acc)
  case Nil
  then show ?case by simp
next
  case (Cons e es)
  obtain ex nm t where acc: "acc = (ex, nm, t)" by (cases acc) auto
  from Cons.prems(1) have m: "e \<in> set ents" by simp
  from index_ok_index_entry[OF assms(1) m, of ex nm fz t] Cons.prems(2) acc
  have "index_ok w d (fst (index_entry d fz e acc))
         \<and> index_ok w d (fst (snd (index_entry d fz e acc)))" by simp
  with Cons.IH[of "index_entry d fz e acc"] Cons.prems(1) show ?case by simp
qed

lemma build_media_index_ok:
  "index_ok w d (fst (build_media_index w d fz))
   \<and> index_ok w d (fst (snd (build_media_index w d fz)))"
proof (cases "listing w d")
  case None
  then show ?thesis by (simp add: build_media_index_def index_ok_def)
next
  case (Some ents)
  have "index_ok w d (fst (fold (index_entry d fz) ents ([], [], 0)))
         \<and> index_ok w d (fst (snd (fold (index_entry d fz) ents ([], [], 0))))"
    by (rule index_ok_fold[OF Some]) (simp_all add: index_ok_def)
  with Some show ?thesis by (simp add: build_media_index_def)
qed

lemma idx_get_ok: "index_ok w d idx \<Longrightarrow> f \<in> set (idx_get idx key) \<Longrightarrow> from_dir w d f"
proof (cases "map_of idx key")
  case None
  assume "f \<in> set (idx_get idx key)"
  with None show ?thesis by (simp add: idx_get_def)
next
  case (Some fs)
  assume ok: "index_ok w d idx" and "f \<in> set (idx_get idx key)"
  with Some have "f \<in> set fs" by (simp add: idx_get_def)
  moreover from Some have "(key, fs) \<in> set idx" by (rule map_of_SomeD)
  ultimately show ?thesis using ok unfolding index_ok_def by blast
qed

lemma find_matches_ok:
  assumes "index_ok w d ex" and "index_ok w d nm" and "f \<in> set (find_matches ex nm stem nstem fz)"
  shows "from_dir w d f"
proof -
  from assms(3) have "f \<in> set (idx_get ex stem) \<or> f \<in> set (idx_get nm nstem)
      \<or> f \<in> set (concat (map snd (filter (\<lambda>(k, fs). prefix stem k) ex)))"
    using find_matches_in_order[of ex nm stem nstem fz] by (auto split: if_splits)
  then show ?thesis
  proof (elim disjE)
    assume "f \<in> set (concat (map snd (filter (\<lambda>(k, fs). prefix stem k) ex)))"
    then obtain k fs where "(k, fs) \<in> set ex" and "f \<in> set fs" by auto
    with assms(1) show ?thesis unfolding index_ok_def by blast
  qed (auto intro: idx_get_ok[OF assms(1)] idx_get_ok[OF assms(2)])
qed


subsection \<open>What a step leaves of the card\<close>

lemma evolves_refl: "evolves cats sd sd"
  by (simp add: evolves_def)

lemma evolves_trans: "evolves cats sd sd1 \<Longrightarrow> evolves cats sd1 sd2 \<Longrightarrow> evolves cats sd sd2"
  by (auto simp: evolves_def)

lemma evolves_print: "report_ok cats l \<Longrightarrow> evolves cats sd (sd\<lparr>printed := printed sd @ [l]\<rparr>)"
  by (simp add: evolves_def)

lemma evolves_ensure_dir: "evolves cats sd (ensure_dir p dry sd)"
  by (simp add: evolves_def ensure_dir_def)

lemma evolves_copy_file:
  "copy_file w src dst dry sd = Inr (r, sd') \<Longrightarrow> evolves cats sd sd'"
  by (auto simp: copy_file_def Let_def evolves_def ensure_dir_def split: if_splits option.splits)

lemma evolves_copy_match:
  "copy_match w root cat dry src (st, sd) = Inr (st', sd') \<Longrightarrow> evolves cats sd sd'"
  by (auto simp: copy_match_def Let_def split: sum.splits if_splits dest: evolves_copy_file)

lemma evolves_copy_matches:
  assumes "for_loop (copy_match w root cat dry) srcs (st, sd) = Inr (st', sd')"
  shows "evolves cats sd sd'"
proof -
  have "case (st', sd') of (a, b) \<Rightarrow> evolves cats sd b"
    by (rule for_loop_invariant[OF assms, where I = "\<lambda>(a, b). evolves cats sd b"])
       (auto simp: evolves_refl dest: evolves_copy_match intro: evolves_trans)
  then show ?thesis by simp
qed

lemma sync_category_effect:
  assumes "sync_category w root exd nmd stem nstem fz dry cat (m, x, st, sd) = Inr (m', x', st', sd')"
  shows "evolves cats sd sd' \<and> set m' \<union> set x' = set m \<union> set x \<union> {cat}"
  using assms
  by (auto simp: sync_category_def Let_def evolves_refl split: if_splits sum.splits
           dest: evolves_copy_matches)

lemma sync_categories_effect:
  assumes "for_loop (sync_category w root exd nmd stem nstem fz dry) cs (m, x, st, sd) = Inr (m', x', st', sd')"
  shows "evolves cats sd sd' \<and> set m' \<union> set x' = set m \<union> set x \<union> set cs"
  using assms
proof (induction cs arbitrary: m x st sd)
  case Nil
  then show ?case by (simp add: evolves_refl)
next
  case (Cons c cs)
  from Cons.prems obtain m1 x1 st1 sd1
    where b: "sync_category w root exd nmd stem nstem fz dry c (m, x, st, sd) = Inr (m1, x1, st1, sd1)"
      and r: "for_loop (sync_category w root exd nmd stem nstem fz dry) cs (m1, x1, st1, sd1) = Inr (m', x', st', sd')"
    by (auto split: sum.splits)
  from sync_category_effect[OF b, of cats] Cons.IH[OF r] show ?case
    by (auto intro: evolves_trans)
qed

lemma sync_game_effect:
  assumes "sync_game w system root roms exd nmd eff dry fz report g (k, nr, st, sd) = Inr (k', nr', st', sd')"
  shows "(k', nr') = (if kept_entry roms g then (k + 1, append_child nr g) else (k, nr))
         \<and> evolves eff sd sd'"
proof (cases "kept_entry roms g")
  case False
  with assms show ?thesis
    by (auto simp: sync_game_def kept_entry_def Let_def evolves_refl split: option.splits if_splits)
next
  case True
  then obtain path_el path_text where p: "find_child g ''path'' = Some path_el"
    and t: "el_text path_el = Some path_text" and ne: "path_text \<noteq> []"
    and r: "normalize_rom_filename_from_xml path_text \<in> roms"
    by (auto simp: kept_entry_def split: option.splits)
  let ?rom = "normalize_rom_filename_from_xml path_text"
  let ?exp = "expected_categories_from_game_xml g system eff"
  let ?cats = "if ?exp \<noteq> {} then sorted_list_of_set ?exp else eff"
  from assms p t ne r obtain m x st1 sd1
    where l: "for_loop (sync_category w root exd nmd (lower (path_stem ?rom))
                 (normalize_stem_loose (lower (path_stem ?rom))) fz dry) ?cats
                 ([], [], st\<lparr>games_kept := games_kept st + 1\<rparr>, sd) = Inr (m, x, st1, sd1)"
      and k: "k' = k + 1" and n: "nr' = append_child nr g"
      and s: "sd' = (if report then sd1\<lparr>printed := printed sd1 @
                 [Report system (path_name ?rom) (if ?exp \<noteq> {} then ''xml'' else ''heuristic'') m x]\<rparr>
                     else sd1)"
    by (auto simp: sync_game_def Let_def split: sum.splits)
  from sync_categories_effect[OF l, of eff] have e1: "evolves eff sd sd1"
    and mx: "set m \<union> set x = set ?cats" by auto
  have fin: "finite ?exp"
    using expected_categories_subset[of g system eff] by (auto intro: finite_subset)
  have "set ?cats \<subseteq> set eff"
    using expected_categories_subset[of g system eff] fin by auto
  with mx have "report_ok eff (Report system (path_name ?rom)
                  (if ?exp \<noteq> {} then ''xml'' else ''heuristic'') m x)" by simp
  then have "evolves eff sd1 sd'" unfolding s by (auto simp: evolves_refl evolves_print)
  with e1 have "evolves eff sd sd'" by (rule evolves_trans)
  with k n True show ?thesis by simp
qed

lemma append_child_children:
  "append_child nr g = Element (el_tag nr) (el_text nr) (el_children nr @ [g])"
  by (simp add: append_child_def)

lemma sync_games_effect:
  assumes "for_loop (sync_game w system root roms exd nmd eff dry fz report) gs (k, nr, st, sd)
             = Inr (k', nr', st', sd')"
  shows "k' = k + length (filter (kept_entry roms) gs)
         \<and> nr' = Element (el_tag nr) (el_text nr) (el_children nr @ filter (kept_entry roms) gs)
         \<and> evolves eff sd sd'"
  using assms
proof (induction gs arbitrary: k nr st sd)
  case Nil
  then show ?case by (simp add: evolves_refl)
next
  case (Cons g gs)
  from Cons.prems obtain k1 nr1 st1 sd1
    where b: "sync_game w system root roms exd nmd eff dry fz report g (k, nr, st, sd) = Inr (k1, nr1, st1, sd1)"
      and r: "for_loop (sync_game w system root roms exd nmd eff dry fz report) gs (k1, nr1, st1, sd1)
                = Inr (k', nr', st', sd')"
    by (auto split: sum.splits)
  from sync_game_effect[OF b] have kn: "(k1, nr1) = (if kept_entry roms g then (k + 1, append_child nr g) else (k, nr))"
    and e: "evolves eff sd sd1" by auto
  from Cons.IH[OF r] have k': "k' = k1 + length (filter (kept_entry roms) gs)"
    and nr': "nr' = Element (el_tag nr1) (el_text nr1) (el_children nr1 @ filter (kept_entry roms) gs)"
    and e': "evolves eff sd1 sd'" by auto
  from e e' have "evolves eff sd sd'" by (rule evolves_trans)
  with kn k' nr' show ?case by (auto simp: append_child_children)
qed


subsection \<open>The loops of a system end without an exception\<close>

lemma copy_file_total:
  "nas_file w src \<noteq> None \<Longrightarrow> \<exists>r sd'. copy_file w src dst dry sd = Inr (r, sd')"
  by (auto simp: copy_file_def Let_def split: option.splits)

lemma copy_match_total:
  assumes "from_dir w d src"
  shows "\<exists>st'. copy_match w root cat dry src st = Inr st'"
proof -
  obtain stats sd where st: "st = (stats, sd)" by (cases st) auto
  from assms have "nas_file w src \<noteq> None" by (simp add: from_dir_def)
  from copy_file_total[OF this] obtain r sd'
    where "copy_file w src (root @ [cat] @ [name_of src]) dry sd = Inr (r, sd')" by blast
  with st show ?thesis by (simp add: copy_match_def Let_def)
qed

lemma copy_matches_total:
  assumes "\<And>src. src \<in> set srcs \<Longrightarrow> from_dir w d src"
  shows "\<exists>st'. for_loop (copy_match w root cat dry) srcs st = Inr st'"
  by (rule for_loop_returns) (rule copy_match_total, rule assms)

lemma cat_idx_get_ok:
  assumes "dict_ok w mr dict"
  shows "index_ok w (mr @ [cat]) (cat_idx_get dict cat)"
proof (cases "dict cat")
  case None
  then show ?thesis by (simp add: cat_idx_get_def index_ok_def)
next
  case (Some idx)
  with assms have "index_ok w (mr @ [cat]) idx" unfolding dict_ok_def by blast
  with Some show ?thesis by (simp add: cat_idx_get_def)
qed

lemma sync_category_total:
  assumes "dict_ok w mr exd" and "dict_ok w mr nmd"
  shows "\<exists>s'. sync_category w root exd nmd stem nstem fz dry cat s = Inr s'"
proof -
  obtain m x st sd where s: "s = (m, x, st, sd)" by (cases s) auto
  let ?ms = "find_matches (cat_idx_get exd cat) (cat_idx_get nmd cat) stem nstem fz"
  have "\<And>src. src \<in> set ?ms \<Longrightarrow> from_dir w (mr @ [cat]) src"
    by (rule find_matches_ok[OF cat_idx_get_ok[OF assms(1)] cat_idx_get_ok[OF assms(2)]])
  from copy_matches_total[of ?ms w "mr @ [cat]" root cat dry, OF this] obtain st'
    where "for_loop (copy_match w root cat dry) ?ms
             (st\<lparr>media_categories_attempted := media_categories_attempted st + 1\<rparr>, sd) = Inr st'"
    by blast
  with s show ?thesis by (cases st') (simp add: sync_category_def Let_def)
qed

lemma sync_categories_total:
  assumes "dict_ok w mr exd" and "dict_ok w mr nmd"
  shows "\<exists>s'. for_loop (sync_category w root exd nmd stem nstem fz dry) cs s = Inr s'"
  by (rule for_loop_returns) (rule sync_category_total[OF assms])

lemma sync_game_total:
  assumes "dict_ok w mr exd" and "dict_ok w mr nmd"
  shows "\<exists>s'. sync_game w system root roms exd nmd eff dry fz report g s = Inr s'"
proof -
  obtain k nr st sd where s: "s = (k, nr, st, sd)" by (cases s) auto
  show ?thesis
  proof (cases "kept_entry roms g")
    case False
    with s show ?thesis
      by (auto simp: sync_game_def kept_entry_def Let_def split: option.splits)
  next
    case True
    then obtain path_el path_text where p: "find_child g ''path'' = Some path_el"
      and t: "el_text path_el = Some path_text" and ne: "path_text \<noteq> []"
      and r: "normalize_rom_filename_from_xml path_text \<in> roms"
      by (auto simp: kept_entry_def split: option.splits)
    let ?rom = "normalize_rom_filename_from_xml path_text"
    let ?exp = "expected_categories_from_game_xml g system eff"
    let ?cats = "if ?exp \<noteq> {} then sorted_list_of_set ?exp else eff"
    from sync_categories_total[OF assms] obtain s'
      where "for_loop (sync_category w root exd nmd (lower (path_stem ?rom))
                 (normalize_stem_loose (lower (path_stem ?rom))) fz dry) ?cats
                 ([], [], st\<lparr>games_kept := games_kept st + 1\<rparr>, sd) = Inr s'" by blast
    with s p t ne r show ?thesis
      by (cases s') (auto simp: sync_game_def Let_def)
  qed
qed

lemma sync_games_total:
  assumes "dict_ok w mr exd" and "dict_ok w mr nmd"
  shows "\<exists>s'. for_loop (sync_game w system root roms exd nmd eff dry fz report) gs s = Inr s'"
  by (rule for_loop_returns) (rule sync_game_total[OF assms])

subsection \<open>The indexes of the categories\<close>

lemma fold_index_entry_total:
  "snd (snd (fold (index_entry d fz) es acc)) = snd (snd acc) + length (filter is_file_ent es)"
proof (induction es arbitrary: acc)
  case Nil
  then show ?case by simp
next
  case (Cons e es)
  obtain ex nm t where acc: "acc = (ex, nm, t)" by (cases acc) auto
  have "snd (snd (index_entry d fz e acc)) = snd (snd acc) + (if is_file_ent e then 1 else 0)"
    unfolding acc by (cases e) (simp_all add: index_entry_def Let_def)
  with Cons.IH[of "index_entry d fz e acc"] show ?case by simp
qed

lemma build_media_index_total:
  "snd (snd (build_media_index w d fz)) =
     (case listing w d of None \<Rightarrow> 0 | Some ents \<Rightarrow> length (filter is_file_ent ents))"
  by (simp add: build_media_index_def fold_index_entry_total split: option.splits)

lemma total_zero_iff:
  "snd (snd (build_media_index w (nas_media_root system @ [cat]) fz)) = 0
     \<longleftrightarrow> category_without_files w system cat"
  by (simp add: build_media_index_total category_without_files_def split: option.splits)

lemma dict_ok_update:
  "dict_ok w mr dict \<Longrightarrow> index_ok w (mr @ [cat]) idx \<Longrightarrow> dict_ok w mr (dict(cat \<mapsto> idx))"
  by (simp add: dict_ok_def)

lemma index_category_effect:
  assumes "index_category w (nas_media_root system) fz cat (exd, nmd, eff, st) = (exd', nmd', eff', st')"
    and "dict_ok w (nas_media_root system) exd" and "dict_ok w (nas_media_root system) nmd"
  shows "eff' = eff @ filter (\<lambda>c. \<not> category_without_files w system c) [cat]
         \<and> st' = st\<lparr>categories_ignored_empty_or_missing :=
                       categories_ignored_empty_or_missing st
                       + length (filter (category_without_files w system) [cat])\<rparr>
         \<and> dict_ok w (nas_media_root system) exd' \<and> dict_ok w (nas_media_root system) nmd'"
proof -
  obtain ex nm t where b: "build_media_index w (nas_media_root system @ [cat]) fz = (ex, nm, t)"
    by (cases "build_media_index w (nas_media_root system @ [cat]) fz") auto
  from build_media_index_ok[of w "nas_media_root system @ [cat]" fz] b
  have ok: "index_ok w (nas_media_root system @ [cat]) ex"
    "index_ok w (nas_media_root system @ [cat]) nm" by simp_all
  from total_zero_iff[of w system cat fz] b
  have z: "t = 0 \<longleftrightarrow> category_without_files w system cat" by simp
  from assms(1) b have "exd' = exd(cat \<mapsto> ex)" "nmd' = nmd(cat \<mapsto> nm)"
    "eff' = (if t > 0 then eff @ [cat] else eff)"
    "st' = (if t > 0 then st else st\<lparr>categories_ignored_empty_or_missing :=
                       categories_ignored_empty_or_missing st + 1\<rparr>)"
    by (simp_all add: index_category_def)
  with z ok assms(2,3) show ?thesis by (auto simp: dict_ok_update)
qed

lemma index_categories_effect:
  assumes "fold (index_category w (nas_media_root system) fz) cats (exd, nmd, eff, st) = (exd', nmd', eff', st')"
    and "dict_ok w (nas_media_root system) exd" and "dict_ok w (nas_media_root system) nmd"
  shows "eff' = eff @ filter (\<lambda>c. \<not> category_without_files w system c) cats
         \<and> st' = st\<lparr>categories_ignored_empty_or_missing :=
                       categories_ignored_empty_or_missing st
                       + length (filter (category_without_files w system) cats)\<rparr>
         \<and> dict_ok w (nas_media_root system) exd' \<and> dict_ok w (nas_media_root system) nmd'"
  using assms
proof (induction cats arbitrary: exd nmd eff st)
  case Nil
  then show ?case by simp
next
  case (Cons c cats)
  obtain exd1 nmd1 eff1 st1
    where b: "index_category w (nas_media_root system) fz c (exd, nmd, eff, st) = (exd1, nmd1, eff1, st1)"
    by (cases "index_category w (nas_media_root system) fz c (exd, nmd, eff, st)") auto
  from index_category_effect[OF b Cons.prems(2,3)]
  have e1: "eff1 = eff @ filter (\<lambda>c. \<not> category_without_files w system c) [c]"
    and s1: "st1 = st\<lparr>categories_ignored_empty_or_missing :=
                       categories_ignored_empty_or_missing st
                       + length (filter (category_without_files w system) [c])\<rparr>"
    and d1: "dict_ok w (nas_media_root system) exd1" "dict_ok w (nas_media_root system) nmd1"
    by simp_all
  from Cons.prems(1) b
  have "fold (index_category w (nas_media_root system) fz) cats (exd1, nmd1, eff1, st1) = (exd', nmd', eff', st')"
    by simp
  from Cons.IH[OF this d1] e1 s1 show ?case by auto
qed


subsection \<open>The counter of the ignored categories is touched by the index loop only\<close>

lemma copy_match_ignored:
  "copy_match w root cat dry src (st, sd) = Inr (st', sd') \<Longrightarrow>
   categories_ignored_empty_or_missing st' = categories_ignored_empty_or_missing st"
  by (auto simp: copy_match_def Let_def split: sum.splits if_splits)

lemma copy_matches_ignored:
  assumes "for_loop (copy_match w root cat dry) srcs (st, sd) = Inr (st', sd')"
  shows "categories_ignored_empty_or_missing st' = categories_ignored_empty_or_missing st"
proof -
  have "case (st', sd') of (a, b) \<Rightarrow>
          categories_ignored_empty_or_missing a = categories_ignored_empty_or_missing st"
    by (rule for_loop_invariant[OF assms]) (auto dest: copy_match_ignored)
  then show ?thesis by simp
qed

lemma sync_category_ignored:
  "sync_category w root exd nmd stem nstem fz dry cat (m, x, st, sd) = Inr (m', x', st', sd') \<Longrightarrow>
   categories_ignored_empty_or_missing st' = categories_ignored_empty_or_missing st"
  by (auto simp: sync_category_def Let_def split: if_splits sum.splits dest: copy_matches_ignored)

lemma sync_categories_ignored:
  assumes "for_loop (sync_category w root exd nmd stem nstem fz dry) cs (m, x, st, sd) = Inr (m', x', st', sd')"
  shows "categories_ignored_empty_or_missing st' = categories_ignored_empty_or_missing st"
proof -
  have "case (m', x', st', sd') of (a, b, c, d) \<Rightarrow>
          categories_ignored_empty_or_missing c = categories_ignored_empty_or_missing st"
    by (rule for_loop_invariant[OF assms]) (auto dest: sync_category_ignored)
  then show ?thesis by simp
qed

lemma sync_game_ignored:
  "sync_game w system root roms exd nmd eff dry fz report g (k, nr, st, sd) = Inr (k', nr', st', sd') \<Longrightarrow>
   categories_ignored_empty_or_missing st' = categories_ignored_empty_or_missing st"
  by (auto simp: sync_game_def Let_def split: option.splits if_splits sum.splits
           dest!: sync_categories_ignored)

lemma sync_games_ignored:
  assumes "for_loop (sync_game w system root roms exd nmd eff dry fz report) gs (k, nr, st, sd)
             = Inr (k', nr', st', sd')"
  shows "categories_ignored_empty_or_missing st' = categories_ignored_empty_or_missing st"
proof -
  have "case (k', nr', st', sd') of (a, b, c, d) \<Rightarrow>
          categories_ignored_empty_or_missing c = categories_ignored_empty_or_missing st"
    by (rule for_loop_invariant[OF assms]) (auto dest: sync_game_ignored)
  then show ?thesis by simp
qed

subsection \<open>The write of the gamelist\<close>


lemma backup_path_differs:
  "with_name (sd_out_gamelist system) (name_of (sd_out_gamelist system) @ ''.bak-'' @ stamp)
     \<noteq> sd_out_gamelist system"
  by (simp add: with_name_def name_of_def sd_out_gamelist_def)

lemma write_gamelist_document:
  "k \<noteq> 0 \<Longrightarrow>
   documents (snd (write_gamelist w system False backup k nr (st, sd))) (sd_out_gamelist system) = Some nr"
  by (simp add: write_gamelist_def Let_def ensure_dir_def backup_file_def split: option.splits)

lemma write_gamelist_printed:
  "\<exists>new. printed (snd (write_gamelist w system dry backup k nr (st, sd))) = printed sd @ new
         \<and> list_all (report_ok cats) new"
  by (simp add: write_gamelist_def Let_def ensure_dir_def backup_file_def split: option.splits)

lemma write_gamelist_ignored:
  "categories_ignored_empty_or_missing (fst (write_gamelist w system dry backup k nr (st, sd)))
     = categories_ignored_empty_or_missing st"
  by (simp add: write_gamelist_def Let_def split: option.splits)

subsection \<open>One system\<close>

lemma dict_ok_empty: "dict_ok w mr Map.empty"
  by (simp add: dict_ok_def)

lemma sync_system_result:
  assumes g: "gamelists w (nas_gamelist system) = Some (Document root)"
    and r: "iter_rom_files (sd_rom_dir w system) \<noteq> {}"
  shows "\<exists>stats1 sd1.
      filter_gamelist_and_sync_media w system cats dry backup fz report (stats, sd)
        = Inr (write_gamelist w system dry backup
                 (length (filter (kept_entry (iter_rom_files (sd_rom_dir w system))) (findall root ''game'')))
                 (Element ''gameList'' None
                    (provider_nodes root
                     @ filter (kept_entry (iter_rom_files (sd_rom_dir w system))) (findall root ''game'')))
                 (stats1, sd1))
      \<and> evolves (filter (\<lambda>c. \<not> category_without_files w system c) cats) sd sd1
      \<and> categories_ignored_empty_or_missing stats1
          = categories_ignored_empty_or_missing stats
            + length (filter (category_without_files w system) cats)"
proof -
  let ?roms = "iter_rom_files (sd_rom_dir w system)"
  let ?nr0 = "case find_child root ''provider'' of
                None \<Rightarrow> Element ''gameList'' None []
              | Some p \<Rightarrow> append_child (Element ''gameList'' None []) p"
  obtain exd nmd eff st1
    where f: "fold (index_category w (nas_media_root system) fz) cats (Map.empty, Map.empty, [], stats)
                = (exd, nmd, eff, st1)"
    by (cases "fold (index_category w (nas_media_root system) fz) cats (Map.empty, Map.empty, [], stats)") auto
  from index_categories_effect[OF f dict_ok_empty dict_ok_empty]
  have eff: "eff = filter (\<lambda>c. \<not> category_without_files w system c) cats"
    and st1: "st1 = stats\<lparr>categories_ignored_empty_or_missing :=
                       categories_ignored_empty_or_missing stats
                       + length (filter (category_without_files w system) cats)\<rparr>"
    and d: "dict_ok w (nas_media_root system) exd" "dict_ok w (nas_media_root system) nmd"
    by simp_all
  let ?st2 = "st1\<lparr>games_total_in_master := games_total_in_master st1 + length (findall root ''game'')\<rparr>"
  from sync_games_total[OF d] obtain k nr st3 sd3
    where l: "for_loop (sync_game w system (sd_out_media_root system) ?roms exd nmd eff dry fz report)
                (findall root ''game'') (0, ?nr0, ?st2, sd) = Inr (k, nr, st3, sd3)"
    by (metis prod_cases4)
  from sync_games_effect[OF l]
  have k: "k = length (filter (kept_entry ?roms) (findall root ''game''))"
    and nr: "nr = Element (el_tag ?nr0) (el_text ?nr0)
                    (el_children ?nr0 @ filter (kept_entry ?roms) (findall root ''game''))"
    and e: "evolves eff sd sd3" by simp_all
  have nr0: "el_tag ?nr0 = ''gameList''" "el_text ?nr0 = None" "el_children ?nr0 = provider_nodes root"
    by (simp_all add: provider_nodes_def append_child_def split: option.splits)
  from sync_games_ignored[OF l] st1
  have i: "categories_ignored_empty_or_missing st3
             = categories_ignored_empty_or_missing stats
               + length (filter (category_without_files w system) cats)" by simp
  have "filter_gamelist_and_sync_media w system cats dry backup fz report (stats, sd)
          = Inr (write_gamelist w system dry backup k nr (st3, sd3))"
    using g r f l by (simp add: filter_gamelist_and_sync_media_def Let_def)
  with k nr nr0 e i eff show ?thesis by auto
qed


subsection \<open>The output document\<close>




lemma kept_entry_roms: "kept_entry roms g \<Longrightarrow> roms \<noteq> {}"
  by (auto simp: kept_entry_def split: option.splits)

lemma nothing_kept_without_roms:
  "iter_rom_files (sd_rom_dir w system) = {} \<Longrightarrow>
   filter (kept_entry (iter_rom_files (sd_rom_dir w system))) gs = []"
  by (simp add: filter_empty_conv kept_entry_def split: option.splits)

text \<open>
  Claim C10. In sync mode the document written for a system with at least one retained entry
  is a \<^verbatim>\<open>gameList\<close> whose children are the provider node of the master, when there is one,
  followed by the retained entries in the order of the master document.
\<close>

theorem output_document_preserves_order:
  "gamelists w (nas_gamelist system) = Some (Document root)
   \<and> filter (kept_entry (iter_rom_files (sd_rom_dir w system))) (findall root ''game'') \<noteq> []
   \<longrightarrow> (\<exists>stats' sd'.
          filter_gamelist_and_sync_media w system media_categories False backup_gamelist_flag
            fuzzy_media_match report (stats, sd) = Inr (stats', sd')
          \<and> documents sd' (sd_out_gamelist system) =
              Some (Element ''gameList'' None
                      (provider_nodes root
                       @ filter (kept_entry (iter_rom_files (sd_rom_dir w system)))
                           (findall root ''game'')))
          \<and> subseq (filter (kept_entry (iter_rom_files (sd_rom_dir w system))) (findall root ''game''))
                   (findall root ''game''))"
proof
  let ?roms = "iter_rom_files (sd_rom_dir w system)"
  let ?ks = "filter (kept_entry ?roms) (findall root ''game'')"
  assume a: "gamelists w (nas_gamelist system) = Some (Document root) \<and> ?ks \<noteq> []"
  then have g: "gamelists w (nas_gamelist system) = Some (Document root)" and ks: "?ks \<noteq> []"
    by simp_all
  from ks have r: "?roms \<noteq> {}" using nothing_kept_without_roms[of w system] by blast
  from sync_system_result[OF g r, of media_categories False backup_gamelist_flag fuzzy_media_match
      report stats sd]
  obtain stats1 sd1
    where res: "filter_gamelist_and_sync_media w system media_categories False backup_gamelist_flag
                  fuzzy_media_match report (stats, sd)
                = Inr (write_gamelist w system False backup_gamelist_flag (length ?ks)
                         (Element ''gameList'' None (provider_nodes root @ ?ks)) (stats1, sd1))"
    by blast
  obtain stats' sd' where w: "write_gamelist w system False backup_gamelist_flag (length ?ks)
                         (Element ''gameList'' None (provider_nodes root @ ?ks)) (stats1, sd1) = (stats', sd')"
    by (cases "write_gamelist w system False backup_gamelist_flag (length ?ks)
                         (Element ''gameList'' None (provider_nodes root @ ?ks)) (stats1, sd1)") auto
  from ks have "length ?ks \<noteq> 0" by simp
  from write_gamelist_document[OF this, of w system backup_gamelist_flag
      "Element ''gameList'' None (provider_nodes root @ ?ks)" stats1 sd1] w
  have "documents sd' (sd_out_gamelist system) = Some (Element ''gameList'' None (provider_nodes root @ ?ks))"
    by simp
  with res w show "\<exists>stats' sd'.
          filter_gamelist_and_sync_media w system media_categories False backup_gamelist_flag
            fuzzy_media_match report (stats, sd) = Inr (stats', sd')
          \<and> documents sd' (sd_out_gamelist system) =
              Some (Element ''gameList'' None (provider_nodes root @ ?ks))
          \<and> subseq ?ks (findall root ''game'')"
    by simp
qed









lemma sync_world_catalog:
  "gamelists sync_world (nas_gamelist ''switch'') = Some (Document sync_root)"
  by (simp add: sync_world_def nas_gamelist_def)

lemma sync_world_kept:
  "filter (kept_entry (iter_rom_files (sd_rom_dir sync_world ''switch''))) (findall sync_root ''game'')
     = [celeste_game, zelda_game]"
  by code_simp

lemma sync_world_provider: "provider_nodes sync_root = [sync_provider]"
  by code_simp

theorem output_document_preserves_order_witness:
  "gamelists sync_world (nas_gamelist ''switch'') = Some (Document sync_root)
   \<and> findall sync_root ''game'' = [celeste_game, hades_game, orphan_game, zelda_game]
   \<and> find_child sync_root ''provider'' = Some sync_provider
   \<and> (\<exists>stats' sd'.
         filter_gamelist_and_sync_media sync_world ''switch'' [''covers'', ''screenshots'', ''videos'']
           False False False True (new_stats 1, empty_card) = Inr (stats', sd')
         \<and> documents sd' (sd_out_gamelist ''switch'') =
             Some (Element ''gameList'' None [sync_provider, celeste_game, zelda_game]))"
proof -
  have a: "findall sync_root ''game'' = [celeste_game, hades_game, orphan_game, zelda_game]"
    by code_simp
  have b: "find_child sync_root ''provider'' = Some sync_provider" by code_simp
  have ne: "filter (kept_entry (iter_rom_files (sd_rom_dir sync_world ''switch'')))
              (findall sync_root ''game'') \<noteq> []"
    by (simp only: sync_world_kept) simp
  from output_document_preserves_order[of sync_world "''switch''" sync_root
      "[''covers'', ''screenshots'', ''videos'']" False False True "new_stats 1" empty_card]
    sync_world_catalog ne
  obtain stats' sd'
    where "filter_gamelist_and_sync_media sync_world ''switch'' [''covers'', ''screenshots'', ''videos'']
             False False False True (new_stats 1, empty_card) = Inr (stats', sd')"
      and "documents sd' (sd_out_gamelist ''switch'') =
             Some (Element ''gameList'' None
                     (provider_nodes sync_root
                      @ filter (kept_entry (iter_rom_files (sd_rom_dir sync_world ''switch'')))
                          (findall sync_root ''game'')))"
    by blast
  then have "\<exists>stats' sd'.
         filter_gamelist_and_sync_media sync_world ''switch'' [''covers'', ''screenshots'', ''videos'']
           False False False True (new_stats 1, empty_card) = Inr (stats', sd')
         \<and> documents sd' (sd_out_gamelist ''switch'') =
             Some (Element ''gameList'' None [sync_provider, celeste_game, zelda_game])"
    by (simp only: sync_world_kept sync_world_provider append.simps) blast
  with sync_world_catalog a b show ?thesis by blast
qed




subsection \<open>Pruned categories\<close>

lemma report_ok_member:
  assumes "list_all (report_ok cats) new"
    and "Report sys rom mode matched_cats missed_cats \<in> set new"
    and "c \<in> set matched_cats \<union> set missed_cats"
  shows "c \<in> set cats"
proof -
  from assms(1,2) have "report_ok cats (Report sys rom mode matched_cats missed_cats)"
    unfolding list_all_iff by blast
  with assms(3) show ?thesis by auto
qed

text \<open>
  Claim C5. For a system that is processed (its catalog is parsed and the card has ROM
  files for it), in either mode: every selected category without files is counted in the
  total of the ignored categories, once for each time it is selected; no per-ROM report
  names such a category as matched or missed; and the categories inferred for an entry are
  taken among the selected categories with files.
\<close>

theorem empty_categories_pruned:
  "gamelists w (nas_gamelist system) = Some (Document root)
   \<and> iter_rom_files (sd_rom_dir w system) \<noteq> {}
   \<longrightarrow> (\<exists>stats' sd' new.
          filter_gamelist_and_sync_media w system media_categories dry_run backup_gamelist_flag
            fuzzy_media_match report (stats, sd) = Inr (stats', sd')
          \<and> categories_ignored_empty_or_missing stats' =
              categories_ignored_empty_or_missing stats
              + length (filter (category_without_files w system) media_categories)
          \<and> printed sd' = printed sd @ new
          \<and> (\<forall>sys rom mode matched_cats missed_cats.
                Report sys rom mode matched_cats missed_cats \<in> set new
                \<longrightarrow> (\<forall>c \<in> set matched_cats \<union> set missed_cats.
                       c \<in> set media_categories \<and> \<not> category_without_files w system c))
          \<and> (\<forall>game. expected_categories_from_game_xml game system
                         (filter (\<lambda>c. \<not> category_without_files w system c) media_categories)
                       \<subseteq> {c \<in> set media_categories. \<not> category_without_files w system c}))"
proof
  let ?eff = "filter (\<lambda>c. \<not> category_without_files w system c) media_categories"
  let ?roms = "iter_rom_files (sd_rom_dir w system)"
  let ?ks = "filter (kept_entry ?roms) (findall root ''game'')"
  let ?run = "filter_gamelist_and_sync_media w system media_categories dry_run backup_gamelist_flag
            fuzzy_media_match report (stats, sd)"
  assume "gamelists w (nas_gamelist system) = Some (Document root) \<and> ?roms \<noteq> {}"
  then have g: "gamelists w (nas_gamelist system) = Some (Document root)" and r: "?roms \<noteq> {}"
    by simp_all
  from sync_system_result[OF g r, of media_categories dry_run backup_gamelist_flag
      fuzzy_media_match report stats sd]
  obtain stats1 sd1
    where res: "?run = Inr (write_gamelist w system dry_run backup_gamelist_flag (length ?ks)
                         (Element ''gameList'' None (provider_nodes root @ ?ks)) (stats1, sd1))"
      and e: "evolves ?eff sd sd1"
      and i: "categories_ignored_empty_or_missing stats1
                = categories_ignored_empty_or_missing stats
                  + length (filter (category_without_files w system) media_categories)"
    by blast
  obtain stats' sd' where w: "write_gamelist w system dry_run backup_gamelist_flag (length ?ks)
                         (Element ''gameList'' None (provider_nodes root @ ?ks)) (stats1, sd1) = (stats', sd')"
    by (cases "write_gamelist w system dry_run backup_gamelist_flag (length ?ks)
                         (Element ''gameList'' None (provider_nodes root @ ?ks)) (stats1, sd1)") auto
  from write_gamelist_ignored[of w system dry_run backup_gamelist_flag "length ?ks"
      "Element ''gameList'' None (provider_nodes root @ ?ks)" stats1 sd1] w i
  have i': "categories_ignored_empty_or_missing stats'
                = categories_ignored_empty_or_missing stats
                  + length (filter (category_without_files w system) media_categories)" by simp
  from e obtain new1 where p1: "printed sd1 = printed sd @ new1" and o1: "list_all (report_ok ?eff) new1"
    by (auto simp: evolves_def)
  from write_gamelist_printed[of w system dry_run backup_gamelist_flag "length ?ks"
      "Element ''gameList'' None (provider_nodes root @ ?ks)" stats1 sd1 ?eff] w
  obtain new2 where p2: "printed sd' = printed sd1 @ new2" and o2: "list_all (report_ok ?eff) new2"
    by auto
  from p1 p2 have p: "printed sd' = printed sd @ (new1 @ new2)" by simp
  from o1 o2 have o: "list_all (report_ok ?eff) (new1 @ new2)" by simp
  have rep: "\<forall>sys rom mode matched_cats missed_cats.
                Report sys rom mode matched_cats missed_cats \<in> set (new1 @ new2)
                \<longrightarrow> (\<forall>c \<in> set matched_cats \<union> set missed_cats.
                       c \<in> set media_categories \<and> \<not> category_without_files w system c)"
  proof (intro allI impI ballI)
    fix sys rom mode matched_cats missed_cats c
    assume "Report sys rom mode matched_cats missed_cats \<in> set (new1 @ new2)"
      and "c \<in> set matched_cats \<union> set missed_cats"
    with o have "c \<in> set ?eff" by (rule report_ok_member)
    then show "c \<in> set media_categories \<and> \<not> category_without_files w system c" by simp
  qed
  have ex: "\<forall>game. expected_categories_from_game_xml game system ?eff
                       \<subseteq> {c \<in> set media_categories. \<not> category_without_files w system c}"
    using expected_categories_subset[of _ system ?eff] by auto
  from res w i' p rep ex
  show "\<exists>stats' sd' new. ?run = Inr (stats', sd')
          \<and> categories_ignored_empty_or_missing stats' =
              categories_ignored_empty_or_missing stats
              + length (filter (category_without_files w system) media_categories)
          \<and> printed sd' = printed sd @ new
          \<and> (\<forall>sys rom mode matched_cats missed_cats.
                Report sys rom mode matched_cats missed_cats \<in> set new
                \<longrightarrow> (\<forall>c \<in> set matched_cats \<union> set missed_cats.
                       c \<in> set media_categories \<and> \<not> category_without_files w system c))
          \<and> (\<forall>game. expected_categories_from_game_xml game system ?eff
                       \<subseteq> {c \<in> set media_categories. \<not> category_without_files w system c})"
    by (intro exI[of _ stats'] exI[of _ sd'] exI[of _ "new1 @ new2"]) simp
qed


theorem empty_categories_pruned_witness:
  "gamelists sync_world (nas_gamelist ''switch'') = Some (Document sync_root)
   \<and> iter_rom_files (sd_rom_dir sync_world ''switch'') \<noteq> {}
   \<and> filter (category_without_files sync_world ''switch'') [''covers'', ''screenshots'', ''videos'']
       = [''screenshots'', ''videos'']
   \<and> (\<exists>stats' sd'.
         filter_gamelist_and_sync_media sync_world ''switch'' [''covers'', ''screenshots'', ''videos'']
           False False False True (new_stats 1, empty_card) = Inr (stats', sd')
         \<and> categories_ignored_empty_or_missing stats' = 2
         \<and> printed sd' = [Report ''switch'' ''celeste.xci'' ''heuristic'' [''covers''] [],
                           Report ''switch'' ''zelda.nsp'' ''heuristic'' [] [''covers'']])"
proof -
  let ?run = "filter_gamelist_and_sync_media sync_world ''switch'' [''covers'', ''screenshots'', ''videos'']
           False False False True (new_stats 1, empty_card)"
  have r: "iter_rom_files (sd_rom_dir sync_world ''switch'') \<noteq> {}" by code_simp
  have f: "filter (category_without_files sync_world ''switch'') [''covers'', ''screenshots'', ''videos'']
             = [''screenshots'', ''videos'']" by code_simp
  have z: "categories_ignored_empty_or_missing (new_stats 1) = 0" by (simp add: new_stats_def)
  have pr: "(case ?run of Inl e \<Rightarrow> [] | Inr (st, sd) \<Rightarrow> printed sd)
              = [Report ''switch'' ''celeste.xci'' ''heuristic'' [''covers''] [],
                 Report ''switch'' ''zelda.nsp'' ''heuristic'' [] [''covers'']]"
    by code_simp
  from empty_categories_pruned[of sync_world "''switch''" sync_root
      "[''covers'', ''screenshots'', ''videos'']" False False False True "new_stats 1" empty_card]
    sync_world_catalog r
  obtain stats' sd' where run: "?run = Inr (stats', sd')"
    and i: "categories_ignored_empty_or_missing stats' =
              categories_ignored_empty_or_missing (new_stats 1)
              + length (filter (category_without_files sync_world ''switch'')
                          [''covers'', ''screenshots'', ''videos''])"
    by blast
  from i have "categories_ignored_empty_or_missing stats' = 2" unfolding f z by simp
  moreover from pr run have "printed sd' = [Report ''switch'' ''celeste.xci'' ''heuristic'' [''covers''] [],
                 Report ''switch'' ''zelda.nsp'' ''heuristic'' [] [''covers'']]" by simp
  ultimately show ?thesis using sync_world_catalog r f run by blast
qed

lemma copy_dsts_append: "copy_dsts (xs @ ys) = copy_dsts xs @ copy_dsts ys"
  by (induction xs rule: copy_dsts.induct) auto

lemma no_repeat_back:
  "printed sd' = printed sd @ new \<Longrightarrow> no_repeat sd' \<Longrightarrow> no_repeat sd"
  by (simp add: no_repeat_def copy_dsts_append)

lemma evolves_no_repeat: "evolves cats sd sd' \<Longrightarrow> no_repeat sd' \<Longrightarrow> no_repeat sd"
  by (auto simp: evolves_def dest: no_repeat_back)

lemma same_counts_refl: "same_counts a a"
  by (simp add: same_counts_def)

subsection \<open>Two runs of a loop that can raise\<close>

lemma for_loop_back:
  assumes bk: "\<And>x t t1. A x \<Longrightarrow> g x t = Inr t1 \<Longrightarrow> Ok t1 \<Longrightarrow> Ok t"
  shows "list_all A xs \<Longrightarrow> for_loop g xs t = Inr t' \<Longrightarrow> Ok t' \<Longrightarrow> Ok t"
proof (induction xs arbitrary: t)
  case Nil
  then show ?case by simp
next
  case (Cons x xs)
  from Cons.prems(2) obtain t1 where b: "g x t = Inr t1" and r: "for_loop g xs t1 = Inr t'"
    by (auto split: sum.splits)
  from Cons.prems(1) have ax: "A x" and axs: "list_all A xs" by simp_all
  from Cons.IH[OF axs r Cons.prems(3)] have "Ok t1" .
  with bk[OF ax b] show ?case .
qed

lemma for_loop_related:
  assumes bk: "\<And>x t t1. A x \<Longrightarrow> g x t = Inr t1 \<Longrightarrow> Ok t1 \<Longrightarrow> Ok t"
    and step: "\<And>x s t t1. A x \<Longrightarrow> Rel s t \<Longrightarrow> g x t = Inr t1 \<Longrightarrow> Ok t1
                 \<Longrightarrow> \<exists>s1. f x s = Inr s1 \<and> Rel s1 t1"
  shows "list_all A xs \<Longrightarrow> Rel s t \<Longrightarrow> for_loop g xs t = Inr t' \<Longrightarrow> Ok t'
           \<Longrightarrow> \<exists>s'. for_loop f xs s = Inr s' \<and> Rel s' t'"
proof (induction xs arbitrary: s t)
  case Nil
  then show ?case by simp
next
  case (Cons x xs)
  from Cons.prems(3) obtain t1 where b: "g x t = Inr t1" and r: "for_loop g xs t1 = Inr t'"
    by (auto split: sum.splits)
  from Cons.prems(1) have ax: "A x" and axs: "list_all A xs" by simp_all
  have ok1: "Ok t1"
    by (rule for_loop_back[where A = A and g = g and Ok = Ok, OF bk axs r Cons.prems(4)])
  from step[OF ax Cons.prems(2) b ok1]
  obtain s1 where fs: "f x s = Inr s1" and rel1: "Rel s1 t1" by auto
  from Cons.IH[OF axs rel1 r Cons.prems(4)] obtain s'
    where "for_loop f xs s1 = Inr s'" and "Rel s' t'" by auto
  with fs show ?case by simp
qed

subsection \<open>A copy in the two modes\<close>

lemma copy_file_dry:
  "copy_file w src dst True sd =
     (if skips w src dst (files sd) then Inr (''skipped'', sd)
      else Inr (''copied'', sd\<lparr>printed := printed sd @ [DryCopy src dst]\<rparr>))"
  by (simp add: copy_file_def skips_def Let_def ensure_dir_def)

lemma copy_file_real:
  "nas_file w src = Some s \<Longrightarrow>
   copy_file w src dst False sd =
     (if skips w src dst (files sd) then Inr (''skipped'', ensure_dir (parent dst) False sd)
      else Inr (''copied'', (ensure_dir (parent dst) False sd)\<lparr>files := (files sd)(dst \<mapsto> s)\<rparr>))"
  by (simp add: copy_file_def skips_def Let_def ensure_dir_def)

lemma skips_files: "fs dst = fs' dst \<Longrightarrow> skips w src dst fs = skips w src dst fs'"
  by (simp add: skips_def)

lemma mirrored_ensure_dir: "mirrored w sr sd \<Longrightarrow> mirrored w (ensure_dir p False sr) sd"
  by (simp add: mirrored_def ensure_dir_def)

lemma copy_file_mirrored:
  assumes m: "mirrored w sr sd" and src: "nas_file w src = Some s"
    and dry: "copy_file w src (''ES-DE'' # src) True sd = Inr (r, sd')"
    and nr: "no_repeat sd'"
  shows "\<exists>sr'. copy_file w src (''ES-DE'' # src) False sr = Inr (r, sr') \<and> mirrored w sr' sd'"
proof (cases "skips w src (''ES-DE'' # src) (files sd)")
  case True
  with dry have r: "r = ''skipped''" and sd': "sd' = sd" by (simp_all add: copy_file_dry)
  have "''ES-DE'' # src \<notin> set (copy_dsts (printed sd))"
  proof
    assume "''ES-DE'' # src \<in> set (copy_dsts (printed sd))"
    with m have "\<not> skips w (tl (''ES-DE'' # src)) (''ES-DE'' # src) (files sd)"
      unfolding mirrored_def by blast
    with True show False by simp
  qed
  with m have "files sr (''ES-DE'' # src) = files sd (''ES-DE'' # src)"
    unfolding mirrored_def by blast
  with True have "skips w src (''ES-DE'' # src) (files sr)"
    using skips_files[of "files sr" "''ES-DE'' # src" "files sd" w src] by simp
  then have "copy_file w src (''ES-DE'' # src) False sr
               = Inr (''skipped'', ensure_dir (parent (''ES-DE'' # src)) False sr)"
    by (simp add: copy_file_real[OF src])
  with r sd' mirrored_ensure_dir[OF m] show ?thesis by simp
next
  case False
  with dry have r: "r = ''copied''"
    and sd': "sd' = sd\<lparr>printed := printed sd @ [DryCopy src (''ES-DE'' # src)]\<rparr>"
    by (simp_all add: copy_file_dry)
  from sd' have logged: "copy_dsts (printed sd') = copy_dsts (printed sd) @ [''ES-DE'' # src]"
    by (simp add: copy_dsts_append)
  with nr have fresh: "''ES-DE'' # src \<notin> set (copy_dsts (printed sd))"
    by (simp add: no_repeat_def)
  with m have "files sr (''ES-DE'' # src) = files sd (''ES-DE'' # src)"
    unfolding mirrored_def by blast
  with False have "\<not> skips w src (''ES-DE'' # src) (files sr)"
    using skips_files[of "files sr" "''ES-DE'' # src" "files sd" w src] by simp
  then have c: "copy_file w src (''ES-DE'' # src) False sr
               = Inr (''copied'', (ensure_dir (parent (''ES-DE'' # src)) False sr)
                        \<lparr>files := (files sr)(''ES-DE'' # src \<mapsto> s)\<rparr>)"
    by (simp add: copy_file_real[OF src])
  have "mirrored w ((ensure_dir (parent (''ES-DE'' # src)) False sr)
                        \<lparr>files := (files sr)(''ES-DE'' # src \<mapsto> s)\<rparr>) sd'"
    unfolding mirrored_def
  proof (intro conjI allI impI ballI)
    fix p
    assume "p \<notin> set (copy_dsts (printed sd'))"
    then have "p \<noteq> ''ES-DE'' # src" and "p \<notin> set (copy_dsts (printed sd))"
      by (simp_all add: logged)
    with m show "files ((ensure_dir (parent (''ES-DE'' # src)) False sr)
                        \<lparr>files := (files sr)(''ES-DE'' # src \<mapsto> s)\<rparr>) p = files sd' p"
      unfolding mirrored_def by (simp add: sd')
  next
    fix p
    assume "p \<in> set (copy_dsts (printed sd'))"
    then have "p = ''ES-DE'' # src \<or> p \<in> set (copy_dsts (printed sd))" by (auto simp: logged)
    then show "\<not> skips w (tl p) p (files sd')"
    proof
      assume "p = ''ES-DE'' # src"
      with False show ?thesis by (simp add: sd')
    next
      assume "p \<in> set (copy_dsts (printed sd))"
      with m show ?thesis unfolding mirrored_def by (simp add: sd')
    qed
  qed
  with c r show ?thesis by simp
qed


subsection \<open>The loops in the two modes\<close>

lemma dst_of_src:
  assumes "from_dir w (nas_media_root system @ [cat]) src"
  shows "sd_out_media_root system @ [cat] @ [name_of src] = ''ES-DE'' # src"
proof -
  from assms obtain n where "src = nas_media_root system @ [cat] @ [n]"
    by (auto simp: from_dir_def)
  then show ?thesis by (simp add: sd_out_media_root_def nas_media_root_def name_of_def)
qed

lemma same_counts_copied:
  "same_counts a b \<Longrightarrow>
   same_counts (a\<lparr>media_files_copied := media_files_copied a + 1\<rparr>)
               (b\<lparr>media_files_copied := media_files_copied b + 1\<rparr>)"
  by (simp add: same_counts_def)

lemma same_counts_skipped:
  "same_counts a b \<Longrightarrow>
   same_counts (a\<lparr>media_files_skipped := media_files_skipped a + 1\<rparr>)
               (b\<lparr>media_files_skipped := media_files_skipped b + 1\<rparr>)"
  by (simp add: same_counts_def)

lemma same_counts_attempted:
  "same_counts a b \<Longrightarrow>
   same_counts (a\<lparr>media_categories_attempted := media_categories_attempted a + 1\<rparr>)
               (b\<lparr>media_categories_attempted := media_categories_attempted b + 1\<rparr>)"
  by (simp add: same_counts_def)

lemma same_counts_missing:
  "same_counts a b \<Longrightarrow>
   same_counts (a\<lparr>media_categories_missing := media_categories_missing a + 1\<rparr>)
               (b\<lparr>media_categories_missing := media_categories_missing b + 1\<rparr>)"
  by (simp add: same_counts_def)

lemma same_counts_kept:
  "same_counts a b \<Longrightarrow>
   same_counts (a\<lparr>games_kept := games_kept a + 1\<rparr>) (b\<lparr>games_kept := games_kept b + 1\<rparr>)"
  by (simp add: same_counts_def)

lemma same_counts_total:
  "same_counts a b \<Longrightarrow>
   same_counts (a\<lparr>games_total_in_master := games_total_in_master a + n\<rparr>)
               (b\<lparr>games_total_in_master := games_total_in_master b + n\<rparr>)"
  by (simp add: same_counts_def)

lemma same_counts_ignored:
  "same_counts a b \<Longrightarrow>
   same_counts (a\<lparr>categories_ignored_empty_or_missing := categories_ignored_empty_or_missing a + n\<rparr>)
               (b\<lparr>categories_ignored_empty_or_missing := categories_ignored_empty_or_missing b + n\<rparr>)"
  by (simp add: same_counts_def)

lemma copy_match_unfold:
  "copy_file w src (root @ [cat, name_of src]) dry sd = Inr (r, sd') \<Longrightarrow>
   copy_match w root cat dry src (st, sd) =
     Inr (if r = ''copied'' then st\<lparr>media_files_copied := media_files_copied st + 1\<rparr>
          else st\<lparr>media_files_skipped := media_files_skipped st + 1\<rparr>, sd')"
  by (simp add: copy_match_def Let_def)

lemma copy_match_related:
  assumes src: "from_dir w (nas_media_root system @ [cat]) src"
    and rel: "same_counts st_r st_d \<and> mirrored w sr sd"
    and dry: "copy_match w (sd_out_media_root system) cat True src (st_d, sd) = Inr (st_d', sd')"
    and nr: "no_repeat sd'"
  shows "\<exists>st_r' sr'. copy_match w (sd_out_media_root system) cat False src (st_r, sr) = Inr (st_r', sr')
           \<and> same_counts st_r' st_d' \<and> mirrored w sr' sd'"
proof -
  from src obtain s where s: "nas_file w src = Some s" by (auto simp: from_dir_def)
  from dst_of_src[OF src]
  have d: "sd_out_media_root system @ [cat, name_of src] = ''ES-DE'' # src" by simp
  from copy_file_total[of w src "''ES-DE'' # src" True sd] s
  obtain r sdx where c: "copy_file w src (''ES-DE'' # src) True sd = Inr (r, sdx)" by auto
  then have "copy_file w src (sd_out_media_root system @ [cat, name_of src]) True sd = Inr (r, sdx)"
    by (simp only: d)
  from copy_match_unfold[OF this, of st_d] dry
  have st: "st_d' = (if r = ''copied'' then st_d\<lparr>media_files_copied := media_files_copied st_d + 1\<rparr>
                      else st_d\<lparr>media_files_skipped := media_files_skipped st_d + 1\<rparr>)"
    and sdx: "sdx = sd'" by simp_all
  from rel have m: "mirrored w sr sd" and sc: "same_counts st_r st_d" by simp_all
  from copy_file_mirrored[OF m s c[unfolded sdx] nr] obtain sr'
    where cr: "copy_file w src (''ES-DE'' # src) False sr = Inr (r, sr')" and m': "mirrored w sr' sd'"
    by blast
  from cr have "copy_file w src (sd_out_media_root system @ [cat, name_of src]) False sr = Inr (r, sr')"
    by (simp only: d)
  from copy_match_unfold[OF this, of st_r]
  have cm: "copy_match w (sd_out_media_root system) cat False src (st_r, sr)
                  = Inr (if r = ''copied'' then st_r\<lparr>media_files_copied := media_files_copied st_r + 1\<rparr>
                         else st_r\<lparr>media_files_skipped := media_files_skipped st_r + 1\<rparr>, sr')" .
  have "same_counts (if r = ''copied'' then st_r\<lparr>media_files_copied := media_files_copied st_r + 1\<rparr>
                         else st_r\<lparr>media_files_skipped := media_files_skipped st_r + 1\<rparr>) st_d'"
  proof (cases "r = ''copied''")
    case True
    then show ?thesis unfolding st using same_counts_copied[OF sc] by simp
  next
    case False
    then show ?thesis unfolding st using same_counts_skipped[OF sc] by simp
  qed
  with cm m' show ?thesis by blast
qed

lemma copy_matches_related:
  assumes srcs: "list_all (from_dir w (nas_media_root system @ [cat])) srcs"
    and rel: "same_counts st_r st_d \<and> mirrored w sr sd"
    and dry: "for_loop (copy_match w (sd_out_media_root system) cat True) srcs (st_d, sd) = Inr (st_d', sd')"
    and nr: "no_repeat sd'"
  shows "\<exists>st_r' sr'. for_loop (copy_match w (sd_out_media_root system) cat False) srcs (st_r, sr)
                         = Inr (st_r', sr')
           \<and> same_counts st_r' st_d' \<and> mirrored w sr' sd'"
proof -
  let ?Rel = "\<lambda>(a, b) (c, d). same_counts a c \<and> mirrored w b d"
  let ?Ok = "\<lambda>(c, d). no_repeat d"
  have "\<exists>s'. for_loop (copy_match w (sd_out_media_root system) cat False) srcs (st_r, sr) = Inr s'
          \<and> ?Rel s' (st_d', sd')"
  proof (rule for_loop_related[where A = "from_dir w (nas_media_root system @ [cat])"
        and Ok = ?Ok and Rel = ?Rel and g = "copy_match w (sd_out_media_root system) cat True"
        and t = "(st_d, sd)"])
    fix x t t1
    assume D: "copy_match w (sd_out_media_root system) cat True x t = Inr t1" and O: "?Ok t1"
    obtain a2 b2 where t: "t = (a2, b2)" by (cases t) auto
    obtain a3 b3 where t1: "t1 = (a3, b3)" by (cases t1) auto
    from D have "evolves [] b2 b3" unfolding t t1 by (rule evolves_copy_match)
    from evolves_no_repeat[OF this] O have "no_repeat b2" unfolding t1 by simp
    then show "?Ok t" unfolding t by simp
  next
    fix x s t t1
    assume F: "from_dir w (nas_media_root system @ [cat]) x" and R: "?Rel s t"
      and D: "copy_match w (sd_out_media_root system) cat True x t = Inr t1" and O: "?Ok t1"
    obtain a b where s: "s = (a, b)" by (cases s) auto
    obtain a2 b2 where t: "t = (a2, b2)" by (cases t) auto
    obtain a3 b3 where t1: "t1 = (a3, b3)" by (cases t1) auto
    from R s t have rel': "same_counts a a2 \<and> mirrored w b b2" by simp
    from D t t1 have D': "copy_match w (sd_out_media_root system) cat True x (a2, b2) = Inr (a3, b3)"
      by simp
    from O t1 have O': "no_repeat b3" by simp
    from copy_match_related[OF F rel' D' O'] obtain st_r' sr'
      where "copy_match w (sd_out_media_root system) cat False x (a, b) = Inr (st_r', sr')"
        and "same_counts st_r' a3" and "mirrored w sr' b3" by blast
    then show "\<exists>s1. copy_match w (sd_out_media_root system) cat False x s = Inr s1 \<and> ?Rel s1 t1"
      unfolding s t1 by simp
  qed (use srcs rel dry nr in simp_all)
  then obtain s' where L: "for_loop (copy_match w (sd_out_media_root system) cat False) srcs (st_r, sr) = Inr s'"
    and R': "?Rel s' (st_d', sd')" by blast
  obtain a b where s': "s' = (a, b)" by (cases s') auto
  from R' s' have "same_counts a st_d'" "mirrored w b sd'" by simp_all
  with L s' show ?thesis by simp
qed

lemma sync_category_related:
  assumes ok: "dict_ok w (nas_media_root system) exd" "dict_ok w (nas_media_root system) nmd"
    and rel: "same_counts st_r st_d \<and> mirrored w sr sd"
    and dry: "sync_category w (sd_out_media_root system) exd nmd stem nstem fz True cat (m, x, st_d, sd)
                = Inr (m', x', st_d', sd')"
    and nr: "no_repeat sd'"
  shows "\<exists>st_r' sr'. sync_category w (sd_out_media_root system) exd nmd stem nstem fz False cat (m, x, st_r, sr)
                        = Inr (m', x', st_r', sr')
           \<and> same_counts st_r' st_d' \<and> mirrored w sr' sd'"
proof -
  let ?ms = "find_matches (cat_idx_get exd cat) (cat_idx_get nmd cat) stem nstem fz"
  let ?a = "\<lambda>st. st\<lparr>media_categories_attempted := media_categories_attempted st + 1\<rparr>"
  from rel have sc0: "same_counts st_r st_d" and mi: "mirrored w sr sd" by simp_all
  from sc0 have sc: "same_counts (?a st_r) (?a st_d)" by (rule same_counts_attempted)
  show ?thesis
  proof (cases "?ms = []")
    case True
    with dry have "m' = m" "x' = x @ [cat]" "sd' = sd"
      "st_d' = (?a st_d)\<lparr>media_categories_missing := media_categories_missing (?a st_d) + 1\<rparr>"
      by (simp_all add: sync_category_def Let_def)
    moreover from True
    have "sync_category w (sd_out_media_root system) exd nmd stem nstem fz False cat (m, x, st_r, sr)
            = Inr (m, x @ [cat],
                   (?a st_r)\<lparr>media_categories_missing := media_categories_missing (?a st_r) + 1\<rparr>, sr)"
      by (simp add: sync_category_def Let_def)
    ultimately show ?thesis using same_counts_missing[OF sc] mi by simp
  next
    case False
    with dry have l: "for_loop (copy_match w (sd_out_media_root system) cat True) ?ms (?a st_d, sd)
                        = Inr (st_d', sd')"
      and mx: "m' = m @ [cat]" "x' = x"
      by (auto simp: sync_category_def Let_def split: sum.splits)
    have "list_all (from_dir w (nas_media_root system @ [cat])) ?ms"
      unfolding list_all_iff
      using find_matches_ok[OF cat_idx_get_ok[OF ok(1)] cat_idx_get_ok[OF ok(2)]] by blast
    from copy_matches_related[OF this _ l nr, of "?a st_r" sr] sc mi
    obtain st_r' sr' where "for_loop (copy_match w (sd_out_media_root system) cat False) ?ms (?a st_r, sr)
                         = Inr (st_r', sr')"
      and "same_counts st_r' st_d'" and "mirrored w sr' sd'" by blast
    with False mx show ?thesis by (simp add: sync_category_def Let_def)
  qed
qed

lemma sync_categories_related:
  assumes ok: "dict_ok w (nas_media_root system) exd" "dict_ok w (nas_media_root system) nmd"
    and rel: "same_counts st_r st_d \<and> mirrored w sr sd"
    and dry: "for_loop (sync_category w (sd_out_media_root system) exd nmd stem nstem fz True) cs
                (m, x, st_d, sd) = Inr (m', x', st_d', sd')"
    and nr: "no_repeat sd'"
  shows "\<exists>st_r' sr'. for_loop (sync_category w (sd_out_media_root system) exd nmd stem nstem fz False) cs
                        (m, x, st_r, sr) = Inr (m', x', st_r', sr')
           \<and> same_counts st_r' st_d' \<and> mirrored w sr' sd'"
proof -
  let ?Rel = "\<lambda>(m1, x1, a, b) (m2, x2, c, d). m1 = m2 \<and> x1 = x2 \<and> same_counts a c \<and> mirrored w b d"
  let ?Ok = "\<lambda>(m2, x2, c, d). no_repeat d"
  have "\<exists>s'. for_loop (sync_category w (sd_out_media_root system) exd nmd stem nstem fz False) cs
                (m, x, st_r, sr) = Inr s' \<and> ?Rel s' (m', x', st_d', sd')"
  proof (rule for_loop_related[where A = "\<lambda>c. True" and Ok = ?Ok and Rel = ?Rel
        and g = "sync_category w (sd_out_media_root system) exd nmd stem nstem fz True"
        and t = "(m, x, st_d, sd)"])
    fix c t t1
    assume D: "sync_category w (sd_out_media_root system) exd nmd stem nstem fz True c t = Inr t1"
      and O: "?Ok t1"
    obtain m2 x2 a2 b2 where t: "t = (m2, x2, a2, b2)" by (cases t) auto
    obtain m3 x3 a3 b3 where t1: "t1 = (m3, x3, a3, b3)" by (cases t1) auto
    from D have "evolves [] b2 b3" unfolding t t1 by (rule sync_category_effect[THEN conjunct1])
    from evolves_no_repeat[OF this] O have "no_repeat b2" unfolding t1 by simp
    then show "?Ok t" unfolding t by simp
  next
    fix c s t t1
    assume R: "?Rel s t"
      and D: "sync_category w (sd_out_media_root system) exd nmd stem nstem fz True c t = Inr t1"
      and O: "?Ok t1"
    obtain m1 x1 a b where s: "s = (m1, x1, a, b)" by (cases s) auto
    obtain m2 x2 a2 b2 where t: "t = (m2, x2, a2, b2)" by (cases t) auto
    obtain m3 x3 a3 b3 where t1: "t1 = (m3, x3, a3, b3)" by (cases t1) auto
    from R s t have eq: "m1 = m2" "x1 = x2" and rel': "same_counts a a2 \<and> mirrored w b b2"
      by simp_all
    from D t t1
    have D': "sync_category w (sd_out_media_root system) exd nmd stem nstem fz True c (m2, x2, a2, b2)
                = Inr (m3, x3, a3, b3)" by simp
    from O t1 have O': "no_repeat b3" by simp
    from sync_category_related[OF ok rel' D' O'] obtain st_r' sr'
      where "sync_category w (sd_out_media_root system) exd nmd stem nstem fz False c (m2, x2, a, b)
               = Inr (m3, x3, st_r', sr')"
        and "same_counts st_r' a3" and "mirrored w sr' b3" by blast
    then show "\<exists>s1. sync_category w (sd_out_media_root system) exd nmd stem nstem fz False c s = Inr s1
                 \<and> ?Rel s1 t1"
      unfolding s t1 eq by simp
  qed (use rel dry nr in \<open>simp_all add: list_all_iff\<close>)
  then obtain s' where L: "for_loop (sync_category w (sd_out_media_root system) exd nmd stem nstem fz False) cs
                (m, x, st_r, sr) = Inr s'" and R': "?Rel s' (m', x', st_d', sd')" by blast
  obtain m1 x1 a b where s': "s' = (m1, x1, a, b)" by (cases s') auto
  from R' s' have "m1 = m'" "x1 = x'" "same_counts a st_d'" "mirrored w b sd'" by simp_all
  with L s' show ?thesis by simp
qed


lemma mirrored_frame:
  assumes "mirrored w sr sd" and "files sr' = files sr" and "files sd' = files sd"
    and "copy_dsts (printed sd') = copy_dsts (printed sd)"
  shows "mirrored w sr' sd'"
  using assms by (simp add: mirrored_def)

lemma sync_game_skip:
  "\<not> kept_entry roms g \<Longrightarrow>
   sync_game w system root roms exd nmd eff dry fz report g s = Inr s"
  by (cases s) (auto simp: sync_game_def kept_entry_def Let_def split: option.splits)

lemma sync_game_kept:
  assumes "find_child g ''path'' = Some path_el" and "el_text path_el = Some path_text"
    and "path_text \<noteq> []" and "normalize_rom_filename_from_xml path_text \<in> roms"
  shows "sync_game w system root roms exd nmd eff dry fz report g (k, nr, st, sd) =
     (case for_loop
             (sync_category w root exd nmd
                (lower (path_stem (normalize_rom_filename_from_xml path_text)))
                (normalize_stem_loose (lower (path_stem (normalize_rom_filename_from_xml path_text))))
                fz dry)
             (if expected_categories_from_game_xml g system eff \<noteq> {}
              then sorted_list_of_set (expected_categories_from_game_xml g system eff) else eff)
             ([], [], st\<lparr>games_kept := games_kept st + 1\<rparr>, sd) of
        Inl e \<Rightarrow> Inl e
      | Inr (m, x, st1, sd1) \<Rightarrow>
          Inr (k + 1, append_child nr g, st1,
               if report
               then sd1\<lparr>printed := printed sd1 @
                      [Report system (path_name (normalize_rom_filename_from_xml path_text))
                         (if expected_categories_from_game_xml g system eff \<noteq> {} then ''xml''
                          else ''heuristic'') m x]\<rparr>
               else sd1))"
  using assms by (simp add: sync_game_def Let_def split: sum.splits)

lemma sync_game_related:
  assumes ok: "dict_ok w (nas_media_root system) exd" "dict_ok w (nas_media_root system) nmd"
    and rel: "same_counts st_r st_d \<and> mirrored w sr sd"
    and dry: "sync_game w system (sd_out_media_root system) roms exd nmd eff True fz report g
                (k, nr, st_d, sd) = Inr (k', nr', st_d', sd')"
    and nrp: "no_repeat sd'"
  shows "\<exists>st_r' sr'. sync_game w system (sd_out_media_root system) roms exd nmd eff False fz report g
                        (k, nr, st_r, sr) = Inr (k', nr', st_r', sr')
           \<and> same_counts st_r' st_d' \<and> mirrored w sr' sd'"
proof (cases "kept_entry roms g")
  case False
  from dry sync_game_skip[OF False] have "k' = k" "nr' = nr" "st_d' = st_d" "sd' = sd" by simp_all
  with rel sync_game_skip[OF False, of w system "sd_out_media_root system" exd nmd eff False fz report
      "(k, nr, st_r, sr)"]
  show ?thesis by simp
next
  case True
  then obtain path_el path_text where p: "find_child g ''path'' = Some path_el"
    and t: "el_text path_el = Some path_text" and ne: "path_text \<noteq> []"
    and r: "normalize_rom_filename_from_xml path_text \<in> roms"
    by (auto simp: kept_entry_def split: option.splits)
  let ?rom = "normalize_rom_filename_from_xml path_text"
  let ?exp = "expected_categories_from_game_xml g system eff"
  let ?cats = "if ?exp \<noteq> {} then sorted_list_of_set ?exp else eff"
  let ?line = "\<lambda>m x. Report system (path_name ?rom) (if ?exp \<noteq> {} then ''xml'' else ''heuristic'') m x"
  let ?k = "\<lambda>st. st\<lparr>games_kept := games_kept st + 1\<rparr>"
  let ?loop = "\<lambda>dry. for_loop (sync_category w (sd_out_media_root system) exd nmd (lower (path_stem ?rom))
                 (normalize_stem_loose (lower (path_stem ?rom))) fz dry) ?cats"
  note unf = sync_game_kept[OF p t ne r, of w system "sd_out_media_root system" exd nmd eff _ fz report k nr]
  from sync_categories_total[OF ok, of "sd_out_media_root system" "lower (path_stem ?rom)"
      "normalize_stem_loose (lower (path_stem ?rom))" fz True ?cats "([], [], ?k st_d, sd)"]
  obtain m x st1 sd1 where l: "?loop True ([], [], ?k st_d, sd) = Inr (m, x, st1, sd1)"
    by (metis prod_cases4)
  from dry have "Inr (k + 1, append_child nr g, st1,
                   if report then sd1\<lparr>printed := printed sd1 @ [?line m x]\<rparr> else sd1)
                 = (Inr (k', nr', st_d', sd') :: (error \<times> sd_card) + (nat \<times> element \<times> RunStats \<times> sd_card))"
    unfolding unf[of True st_d sd] l by simp
  then have k': "k' = k + 1" and nr': "nr' = append_child nr g" and st': "st_d' = st1"
    and sd': "sd' = (if report then sd1\<lparr>printed := printed sd1 @ [?line m x]\<rparr> else sd1)"
    by simp_all
  have pe: "printed sd' = printed sd1 @ (if report then [?line m x] else [])"
    unfolding sd' by simp
  from no_repeat_back[OF pe nrp] have nr1: "no_repeat sd1" .
  from rel have "same_counts st_r st_d" and mi0: "mirrored w sr sd" by simp_all
  from same_counts_kept[OF this(1)] mi0
  have rel1: "same_counts (?k st_r) (?k st_d) \<and> mirrored w sr sd" by blast
  from sync_categories_related[OF ok rel1 l nr1] obtain st_r1 sr1
    where lr: "?loop False ([], [], ?k st_r, sr) = Inr (m, x, st_r1, sr1)"
      and sc: "same_counts st_r1 st1" and mi: "mirrored w sr1 sd1" by blast
  let ?sr' = "if report then sr1\<lparr>printed := printed sr1 @ [?line m x]\<rparr> else sr1"
  have "sync_game w system (sd_out_media_root system) roms exd nmd eff False fz report g (k, nr, st_r, sr)
          = Inr (k + 1, append_child nr g, st_r1, ?sr')"
    unfolding unf[of False st_r sr] lr by simp
  moreover have "mirrored w ?sr' sd'"
    by (rule mirrored_frame[OF mi]) (simp_all add: sd' copy_dsts_append)
  ultimately show ?thesis using k' nr' st' sc by simp
qed

lemma sync_games_related:
  assumes ok: "dict_ok w (nas_media_root system) exd" "dict_ok w (nas_media_root system) nmd"
    and rel: "same_counts st_r st_d \<and> mirrored w sr sd"
    and dry: "for_loop (sync_game w system (sd_out_media_root system) roms exd nmd eff True fz report) gs
                (k, nr, st_d, sd) = Inr (k', nr', st_d', sd')"
    and nrp: "no_repeat sd'"
  shows "\<exists>st_r' sr'. for_loop (sync_game w system (sd_out_media_root system) roms exd nmd eff False fz report)
                        gs (k, nr, st_r, sr) = Inr (k', nr', st_r', sr')
           \<and> same_counts st_r' st_d' \<and> mirrored w sr' sd'"
proof -
  let ?Rel = "\<lambda>(k1, n1, a, b) (k2, n2, c, d). k1 = k2 \<and> n1 = n2 \<and> same_counts a c \<and> mirrored w b d"
  let ?Ok = "\<lambda>(k2, n2, c, d). no_repeat d"
  let ?g = "sync_game w system (sd_out_media_root system) roms exd nmd eff True fz report"
  let ?f = "sync_game w system (sd_out_media_root system) roms exd nmd eff False fz report"
  have "\<exists>s'. for_loop ?f gs (k, nr, st_r, sr) = Inr s' \<and> ?Rel s' (k', nr', st_d', sd')"
  proof (rule for_loop_related[where A = "\<lambda>c. True" and Ok = ?Ok and Rel = ?Rel
        and g = ?g and t = "(k, nr, st_d, sd)"])
    fix c t t1
    assume D: "?g c t = Inr t1" and O: "?Ok t1"
    obtain k2 n2 a2 b2 where t: "t = (k2, n2, a2, b2)" by (cases t) auto
    obtain k3 n3 a3 b3 where t1: "t1 = (k3, n3, a3, b3)" by (cases t1) auto
    from D have "evolves eff b2 b3" unfolding t t1 by (rule sync_game_effect[THEN conjunct2])
    from evolves_no_repeat[OF this] O have "no_repeat b2" unfolding t1 by simp
    then show "?Ok t" unfolding t by simp
  next
    fix c s t t1
    assume R: "?Rel s t" and D: "?g c t = Inr t1" and O: "?Ok t1"
    obtain k1 n1 a b where s: "s = (k1, n1, a, b)" by (cases s) auto
    obtain k2 n2 a2 b2 where t: "t = (k2, n2, a2, b2)" by (cases t) auto
    obtain k3 n3 a3 b3 where t1: "t1 = (k3, n3, a3, b3)" by (cases t1) auto
    from R s t have eq: "k1 = k2" "n1 = n2" and rel': "same_counts a a2 \<and> mirrored w b b2"
      by simp_all
    from D t t1 have D': "?g c (k2, n2, a2, b2) = Inr (k3, n3, a3, b3)" by simp
    from O t1 have O': "no_repeat b3" by simp
    from sync_game_related[OF ok rel' D' O'] obtain st_r' sr'
      where "?f c (k2, n2, a, b) = Inr (k3, n3, st_r', sr')"
        and "same_counts st_r' a3" and "mirrored w sr' b3" by blast
    then show "\<exists>s1. ?f c s = Inr s1 \<and> ?Rel s1 t1"
      unfolding s t1 eq by simp
  qed (use rel dry nrp in \<open>simp_all add: list_all_iff\<close>)
  then obtain s' where L: "for_loop ?f gs (k, nr, st_r, sr) = Inr s'"
    and R': "?Rel s' (k', nr', st_d', sd')" by blast
  obtain k1 n1 a b where s': "s' = (k1, n1, a, b)" by (cases s') auto
  from R' s' have "k1 = k'" "n1 = nr'" "same_counts a st_d'" "mirrored w b sd'" by simp_all
  with L s' show ?thesis by simp
qed


subsection \<open>A system in the two modes\<close>

lemma index_category_unfold:
  "index_category w mr fz cat (exd, nmd, eff, st) =
     (exd(cat \<mapsto> fst (build_media_index w (mr @ [cat]) fz)),
      nmd(cat \<mapsto> fst (snd (build_media_index w (mr @ [cat]) fz))),
      (if snd (snd (build_media_index w (mr @ [cat]) fz)) > 0 then eff @ [cat] else eff),
      (if snd (snd (build_media_index w (mr @ [cat]) fz)) > 0 then st
       else st\<lparr>categories_ignored_empty_or_missing := categories_ignored_empty_or_missing st + 1\<rparr>))"
  by (simp add: index_category_def split: prod.splits)

lemma index_fold_dicts:
  "fold (index_category w mr fz) cats (exd, nmd, eff, st) = (E, N, F, st1) \<Longrightarrow>
   \<exists>st1'. fold (index_category w mr fz) cats (exd, nmd, eff, st') = (E, N, F, st1')"
proof (induction cats arbitrary: exd nmd eff st st')
  case Nil
  then show ?case by simp
next
  case (Cons c cats)
  let ?b = "build_media_index w (mr @ [c]) fz"
  let ?exd = "exd(c \<mapsto> fst ?b)"
  let ?nmd = "nmd(c \<mapsto> fst (snd ?b))"
  let ?eff = "if snd (snd ?b) > 0 then eff @ [c] else eff"
  let ?st = "\<lambda>st. if snd (snd ?b) > 0 then st
       else st\<lparr>categories_ignored_empty_or_missing := categories_ignored_empty_or_missing st + 1\<rparr>"
  from Cons.prems have "fold (index_category w mr fz) cats (?exd, ?nmd, ?eff, ?st st) = (E, N, F, st1)"
    by (simp only: fold_simps index_category_unfold)
  from Cons.IH[OF this, of "?st st'"] obtain st1'
    where "fold (index_category w mr fz) cats (?exd, ?nmd, ?eff, ?st st') = (E, N, F, st1')" by blast
  then have "fold (index_category w mr fz) (c # cats) (exd, nmd, eff, st') = (E, N, F, st1')"
    by (simp only: fold_simps index_category_unfold)
  then show ?case by blast
qed

lemma system_document:
  assumes "gamelists w (nas_gamelist system) = Some (Document root)"
    and "iter_rom_files (sd_rom_dir w system) \<noteq> {}"
    and "fold (index_category w (nas_media_root system) fz) cats (Map.empty, Map.empty, [], st)
           = (exd, nmd, eff, st1)"
  shows "filter_gamelist_and_sync_media w system cats dry backup fz report (st, sd) =
     (case for_loop
             (sync_game w system (sd_out_media_root system) (iter_rom_files (sd_rom_dir w system))
                exd nmd eff dry fz report)
             (findall root ''game'')
             (0, (case find_child root ''provider'' of
                    None \<Rightarrow> Element ''gameList'' None []
                  | Some p \<Rightarrow> append_child (Element ''gameList'' None []) p),
              st1\<lparr>games_total_in_master := games_total_in_master st1 + length (findall root ''game'')\<rparr>,
              sd) of
        Inl e \<Rightarrow> Inl e
      | Inr (k, nr, st3, sd3) \<Rightarrow> Inr (write_gamelist w system dry backup k nr (st3, sd3)))"
  using assms by (simp add: filter_gamelist_and_sync_media_def Let_def split: sum.splits)

lemma write_gamelist_files:
  "files (snd (write_gamelist w system dry backup k nr (st, sd))) = files sd"
  by (simp add: write_gamelist_def Let_def ensure_dir_def backup_file_def split: option.splits)

lemma write_gamelist_copy_dsts:
  "copy_dsts (printed (snd (write_gamelist w system dry backup k nr (st, sd)))) = copy_dsts (printed sd)"
  by (simp add: write_gamelist_def Let_def ensure_dir_def backup_file_def copy_dsts_append
           split: option.splits)

lemma write_gamelist_counts:
  "same_counts a b \<Longrightarrow>
   same_counts (fst (write_gamelist w system False backup k nr (a, sr)))
               (fst (write_gamelist w system True backup k nr (b, sd)))"
  by (simp add: write_gamelist_def same_counts_def Let_def)

lemma write_gamelist_related:
  assumes "same_counts st_r st_d \<and> mirrored w sr sd"
  shows "same_counts (fst (write_gamelist w system False backup k nr (st_r, sr)))
                     (fst (write_gamelist w system True backup k nr (st_d, sd)))
         \<and> mirrored w (snd (write_gamelist w system False backup k nr (st_r, sr)))
                       (snd (write_gamelist w system True backup k nr (st_d, sd)))"
proof
  from assms show "same_counts (fst (write_gamelist w system False backup k nr (st_r, sr)))
                     (fst (write_gamelist w system True backup k nr (st_d, sd)))"
    by (simp add: write_gamelist_counts)
  from assms have "mirrored w sr sd" by simp
  then show "mirrored w (snd (write_gamelist w system False backup k nr (st_r, sr)))
                       (snd (write_gamelist w system True backup k nr (st_d, sd)))"
    by (rule mirrored_frame) (simp_all only: write_gamelist_files write_gamelist_copy_dsts)
qed

lemma system_printed_extends:
  assumes "filter_gamelist_and_sync_media w system cats dry backup fz report (st, sd) = Inr (st', sd')"
  shows "\<exists>new. printed sd' = printed sd @ new"
proof (cases "gamelists w (nas_gamelist system)")
  case None
  with assms show ?thesis by (simp add: filter_gamelist_and_sync_media_def)
next
  case (Some gl)
  show ?thesis
  proof (cases "iter_rom_files (sd_rom_dir w system) = {}")
    case True
    with Some assms show ?thesis by (simp add: filter_gamelist_and_sync_media_def)
  next
    case False
    show ?thesis
    proof (cases gl)
      case Malformed
      with Some False assms show ?thesis by (simp add: filter_gamelist_and_sync_media_def)
    next
      case (Document root)
      let ?roms = "iter_rom_files (sd_rom_dir w system)"
      let ?ks = "filter (kept_entry ?roms) (findall root ''game'')"
      let ?eff = "filter (\<lambda>c. \<not> category_without_files w system c) cats"
      from Some Document have g: "gamelists w (nas_gamelist system) = Some (Document root)" by simp
      from sync_system_result[OF g False, of cats dry backup fz report st sd] assms
      obtain stats1 sd1
        where res: "(st', sd') = write_gamelist w system dry backup (length ?ks)
                         (Element ''gameList'' None (provider_nodes root @ ?ks)) (stats1, sd1)"
          and e: "evolves ?eff sd sd1" by auto
      from e obtain new1 where p1: "printed sd1 = printed sd @ new1" by (auto simp: evolves_def)
      from write_gamelist_printed[of w system dry backup "length ?ks"
          "Element ''gameList'' None (provider_nodes root @ ?ks)" stats1 sd1 "[]"] res
      obtain new2 where "printed sd' = printed sd1 @ new2" by (metis snd_conv)
      with p1 show ?thesis by simp
    qed
  qed
qed

lemma system_related:
  assumes rel: "same_counts st_r st_d \<and> mirrored w sr sd"
    and dry: "filter_gamelist_and_sync_media w system cats True backup fz report (st_d, sd) = Inr (st_d', sd')"
    and nrp: "no_repeat sd'"
  shows "\<exists>st_r' sr'. filter_gamelist_and_sync_media w system cats False backup fz report (st_r, sr)
                        = Inr (st_r', sr')
           \<and> same_counts st_r' st_d' \<and> mirrored w sr' sd'"
proof (cases "gamelists w (nas_gamelist system)")
  case None
  with dry have "st_d' = st_d" "sd' = sd" by (simp_all add: filter_gamelist_and_sync_media_def)
  with None rel show ?thesis by (simp add: filter_gamelist_and_sync_media_def)
next
  case (Some gl)
  show ?thesis
  proof (cases "iter_rom_files (sd_rom_dir w system) = {}")
    case True
    with Some dry have "st_d' = st_d" "sd' = sd" by (simp_all add: filter_gamelist_and_sync_media_def)
    with Some True rel show ?thesis by (simp add: filter_gamelist_and_sync_media_def)
  next
    case False
    show ?thesis
    proof (cases gl)
      case Malformed
      with Some False dry show ?thesis by (simp add: filter_gamelist_and_sync_media_def)
    next
      case (Document root)
      let ?roms = "iter_rom_files (sd_rom_dir w system)"
      let ?games = "findall root ''game''"
      let ?nr0 = "case find_child root ''provider'' of
                    None \<Rightarrow> Element ''gameList'' None []
                  | Some p \<Rightarrow> append_child (Element ''gameList'' None []) p"
      let ?t = "\<lambda>st. st\<lparr>games_total_in_master := games_total_in_master st + length ?games\<rparr>"
      let ?loop = "\<lambda>dry exd nmd eff. for_loop (sync_game w system (sd_out_media_root system) ?roms
                     exd nmd eff dry fz report) ?games"
      from Some Document have g: "gamelists w (nas_gamelist system) = Some (Document root)" by simp
      obtain exd nmd eff st1d
        where fd: "fold (index_category w (nas_media_root system) fz) cats (Map.empty, Map.empty, [], st_d)
                     = (exd, nmd, eff, st1d)"
        by (cases "fold (index_category w (nas_media_root system) fz) cats (Map.empty, Map.empty, [], st_d)")
           auto
      from index_fold_dicts[OF fd, of st_r] obtain st1r
        where fr: "fold (index_category w (nas_media_root system) fz) cats (Map.empty, Map.empty, [], st_r)
                     = (exd, nmd, eff, st1r)" by blast
      from index_categories_effect[OF fd dict_ok_empty dict_ok_empty]
      have s1d: "st1d = st_d\<lparr>categories_ignored_empty_or_missing :=
                         categories_ignored_empty_or_missing st_d
                         + length (filter (category_without_files w system) cats)\<rparr>"
        and ok: "dict_ok w (nas_media_root system) exd" "dict_ok w (nas_media_root system) nmd"
        by simp_all
      from index_categories_effect[OF fr dict_ok_empty dict_ok_empty]
      have s1r: "st1r = st_r\<lparr>categories_ignored_empty_or_missing :=
                         categories_ignored_empty_or_missing st_r
                         + length (filter (category_without_files w system) cats)\<rparr>"
        by simp
      from rel have sc0: "same_counts st_r st_d" and mi0: "mirrored w sr sd" by simp_all
      from same_counts_ignored[OF sc0] have "same_counts st1r st1d" unfolding s1d s1r .
      from same_counts_total[OF this] mi0
      have rel2: "same_counts (?t st1r) (?t st1d) \<and> mirrored w sr sd" by blast
      from sync_games_total[OF ok, of system "sd_out_media_root system" ?roms eff True fz report ?games
          "(0, ?nr0, ?t st1d, sd)"]
      obtain k nr st3d sd3d where ld: "?loop True exd nmd eff (0, ?nr0, ?t st1d, sd) = Inr (k, nr, st3d, sd3d)"
        by (metis prod_cases4)
      from dry have wd: "write_gamelist w system True backup k nr (st3d, sd3d) = (st_d', sd')"
        unfolding system_document[OF g False fd] ld by simp
      from write_gamelist_printed[of w system True backup k nr st3d sd3d "[]"] wd
      obtain new where "printed sd' = printed sd3d @ new" by (metis snd_conv)
      from no_repeat_back[OF this nrp] have nr3: "no_repeat sd3d" .
      from sync_games_related[OF ok rel2 ld nr3] obtain st3r sr3
        where lr: "?loop False exd nmd eff (0, ?nr0, ?t st1r, sr) = Inr (k, nr, st3r, sr3)"
          and rel3: "same_counts st3r st3d \<and> mirrored w sr3 sd3d" by blast
      have "filter_gamelist_and_sync_media w system cats False backup fz report (st_r, sr)
              = Inr (write_gamelist w system False backup k nr (st3r, sr3))"
        unfolding system_document[OF g False fr] lr by simp
      moreover from write_gamelist_related[OF rel3, of system backup k nr] wd
      have "same_counts (fst (write_gamelist w system False backup k nr (st3r, sr3))) st_d'
            \<and> mirrored w (snd (write_gamelist w system False backup k nr (st3r, sr3))) sd'"
        by simp
      ultimately show ?thesis by (metis prod.collapse)
    qed
  qed
qed

lemma sync_systems_related:
  assumes rel: "same_counts st_r st_d \<and> mirrored w sr sd"
    and dry: "sync_systems w cats True backup fz report systems (st_d, sd) = Inr (st_d', sd')"
    and nrp: "no_repeat sd'"
  shows "\<exists>st_r' sr'. sync_systems w cats False backup fz report systems (st_r, sr) = Inr (st_r', sr')
           \<and> same_counts st_r' st_d' \<and> mirrored w sr' sd'"
proof -
  let ?Rel = "\<lambda>(a, b) (c, d). same_counts a c \<and> mirrored w b d"
  let ?Ok = "\<lambda>(c, d). no_repeat d"
  let ?g = "\<lambda>system. filter_gamelist_and_sync_media w system cats True backup fz report"
  let ?f = "\<lambda>system. filter_gamelist_and_sync_media w system cats False backup fz report"
  have "\<exists>s'. for_loop ?f systems (st_r, sr) = Inr s' \<and> ?Rel s' (st_d', sd')"
  proof (rule for_loop_related[where A = "\<lambda>c. True" and Ok = ?Ok and Rel = ?Rel
        and g = ?g and t = "(st_d, sd)"])
    fix c t t1
    assume D: "?g c t = Inr t1" and O: "?Ok t1"
    obtain a2 b2 where t: "t = (a2, b2)" by (cases t) auto
    obtain a3 b3 where t1: "t1 = (a3, b3)" by (cases t1) auto
    from D have "\<exists>new. printed b3 = printed b2 @ new" unfolding t t1 by (rule system_printed_extends)
    then obtain new where "printed b3 = printed b2 @ new" ..
    from no_repeat_back[OF this] O have "no_repeat b2" unfolding t1 by simp
    then show "?Ok t" unfolding t by simp
  next
    fix c s t t1
    assume R: "?Rel s t" and D: "?g c t = Inr t1" and O: "?Ok t1"
    obtain a b where s: "s = (a, b)" by (cases s) auto
    obtain a2 b2 where t: "t = (a2, b2)" by (cases t) auto
    obtain a3 b3 where t1: "t1 = (a3, b3)" by (cases t1) auto
    from R s t have rel': "same_counts a a2 \<and> mirrored w b b2" by simp
    from D t t1 have D': "?g c (a2, b2) = Inr (a3, b3)" by simp
    from O t1 have O': "no_repeat b3" by simp
    from system_related[OF rel' D' O'] obtain st_r' sr'
      where "?f c (a, b) = Inr (st_r', sr')"
        and "same_counts st_r' a3" and "mirrored w sr' b3" by blast
    then show "\<exists>s1. ?f c s = Inr s1 \<and> ?Rel s1 t1"
      unfolding s t1 by simp
  qed (use rel dry nrp in \<open>simp_all add: list_all_iff sync_systems_def\<close>)
  then obtain s' where L: "for_loop ?f systems (st_r, sr) = Inr s'"
    and R': "?Rel s' (st_d', sd')" by blast
  obtain a b where s': "s' = (a, b)" by (cases s') auto
  from R' s' have "same_counts a st_d'" "mirrored w b sd'" by simp_all
  with L s' show ?thesis by (simp add: sync_systems_def)
qed


subsection \<open>The dry run leaves the card as it is\<close>

lemma untouched_refl: "untouched sd sd"
  by (simp add: untouched_def)

lemma untouched_trans: "untouched sd sd1 \<Longrightarrow> untouched sd1 sd2 \<Longrightarrow> untouched sd sd2"
  by (simp add: untouched_def)

lemma untouched_print: "untouched sd (sd\<lparr>printed := p\<rparr>)"
  by (simp add: untouched_def)

lemma copy_file_untouched: "copy_file w src dst True sd = Inr (r, sd') \<Longrightarrow> untouched sd sd'"
  by (auto simp: copy_file_dry untouched_def split: if_splits)

lemma copy_match_untouched:
  assumes "copy_match w root cat True src (st, sd) = Inr (st', sd')"
  shows "untouched sd sd'"
proof (cases "copy_file w src (root @ [cat, name_of src]) True sd")
  case (Inl e)
  with assms show ?thesis by (simp add: copy_match_def Let_def)
next
  case (Inr p)
  obtain r sdx where p: "p = (r, sdx)" by (cases p) auto
  from copy_match_unfold[of w src root cat True sd r sdx st] Inr p assms have "sdx = sd'" by simp
  with Inr p show ?thesis by (auto dest: copy_file_untouched)
qed

lemma copy_matches_untouched:
  assumes "for_loop (copy_match w root cat True) srcs (st, sd) = Inr (st', sd')"
  shows "untouched sd sd'"
proof -
  have "case (st', sd') of (a, b) \<Rightarrow> untouched sd b"
  proof (rule for_loop_invariant[OF assms, where I = "\<lambda>(a, b). untouched sd b"])
    fix x s s'
    assume I: "case s of (a, b) \<Rightarrow> untouched sd b" and B: "copy_match w root cat True x s = Inr s'"
    obtain a b where s: "s = (a, b)" by (cases s) auto
    obtain a' b' where s': "s' = (a', b')" by (cases s') auto
    from B have "untouched b b'" unfolding s s' by (rule copy_match_untouched)
    with I s have "untouched sd b'" by (auto intro: untouched_trans)
    then show "case s' of (a, b) \<Rightarrow> untouched sd b" unfolding s' by simp
  qed (simp add: untouched_refl)
  then show ?thesis by simp
qed

lemma sync_category_untouched:
  assumes "sync_category w root exd nmd stem nstem fz True cat (m, x, st, sd) = Inr (m', x', st', sd')"
  shows "untouched sd sd'"
proof (cases "find_matches (cat_idx_get exd cat) (cat_idx_get nmd cat) stem nstem fz = []")
  case True
  with assms show ?thesis by (simp add: sync_category_def Let_def untouched_refl)
next
  case False
  with assms obtain st1 where
    "for_loop (copy_match w root cat True)
       (find_matches (cat_idx_get exd cat) (cat_idx_get nmd cat) stem nstem fz)
       (st\<lparr>media_categories_attempted := media_categories_attempted st + 1\<rparr>, sd) = Inr (st1, sd')"
    by (auto simp: sync_category_def Let_def split: sum.splits)
  then show ?thesis by (rule copy_matches_untouched)
qed

lemma sync_categories_untouched:
  assumes "for_loop (sync_category w root exd nmd stem nstem fz True) cs (m, x, st, sd) = Inr (m', x', st', sd')"
  shows "untouched sd sd'"
proof -
  have "case (m', x', st', sd') of (a, b, c, d) \<Rightarrow> untouched sd d"
  proof (rule for_loop_invariant[OF assms, where I = "\<lambda>(a, b, c, d). untouched sd d"])
    fix y s s'
    assume I: "case s of (a, b, c, d) \<Rightarrow> untouched sd d"
      and B: "sync_category w root exd nmd stem nstem fz True y s = Inr s'"
    obtain a b c d where s: "s = (a, b, c, d)" by (cases s) auto
    obtain a' b' c' d' where s': "s' = (a', b', c', d')" by (cases s') auto
    from B have "untouched d d'" unfolding s s' by (rule sync_category_untouched)
    with I s have "untouched sd d'" by (auto intro: untouched_trans)
    then show "case s' of (a, b, c, d) \<Rightarrow> untouched sd d" unfolding s' by simp
  qed (simp add: untouched_refl)
  then show ?thesis by simp
qed

lemma sync_game_untouched:
  assumes "sync_game w system root roms exd nmd eff True fz report g (k, nr, st, sd) = Inr (k', nr', st', sd')"
  shows "untouched sd sd'"
proof (cases "kept_entry roms g")
  case False
  from assms sync_game_skip[OF False] have "sd' = sd" by simp
  then show ?thesis by (simp add: untouched_refl)
next
  case True
  then obtain path_el path_text where p: "find_child g ''path'' = Some path_el"
    and t: "el_text path_el = Some path_text" and ne: "path_text \<noteq> []"
    and r: "normalize_rom_filename_from_xml path_text \<in> roms"
    by (auto simp: kept_entry_def split: option.splits)
  from assms obtain m x st1 sd1 where
    l: "for_loop
             (sync_category w root exd nmd
                (lower (path_stem (normalize_rom_filename_from_xml path_text)))
                (normalize_stem_loose (lower (path_stem (normalize_rom_filename_from_xml path_text))))
                fz True)
             (if expected_categories_from_game_xml g system eff \<noteq> {}
              then sorted_list_of_set (expected_categories_from_game_xml g system eff) else eff)
             ([], [], st\<lparr>games_kept := games_kept st + 1\<rparr>, sd) = Inr (m, x, st1, sd1)"
    and sd': "sd' = (if report
               then sd1\<lparr>printed := printed sd1 @
                      [Report system (path_name (normalize_rom_filename_from_xml path_text))
                         (if expected_categories_from_game_xml g system eff \<noteq> {} then ''xml''
                          else ''heuristic'') m x]\<rparr>
               else sd1)"
    unfolding sync_game_kept[OF p t ne r] by (auto split: sum.splits)
  from sync_categories_untouched[OF l] have "untouched sd sd1" .
  moreover have "untouched sd1 sd'" unfolding sd' by (simp add: untouched_def)
  ultimately show ?thesis by (rule untouched_trans)
qed

lemma sync_games_untouched:
  assumes "for_loop (sync_game w system root roms exd nmd eff True fz report) gs (k, nr, st, sd)
             = Inr (k', nr', st', sd')"
  shows "untouched sd sd'"
proof -
  have "case (k', nr', st', sd') of (a, b, c, d) \<Rightarrow> untouched sd d"
  proof (rule for_loop_invariant[OF assms, where I = "\<lambda>(a, b, c, d). untouched sd d"])
    fix y s s'
    assume I: "case s of (a, b, c, d) \<Rightarrow> untouched sd d"
      and B: "sync_game w system root roms exd nmd eff True fz report y s = Inr s'"
    obtain a b c d where s: "s = (a, b, c, d)" by (cases s) auto
    obtain a' b' c' d' where s': "s' = (a', b', c', d')" by (cases s') auto
    from B have "untouched d d'" unfolding s s' by (rule sync_game_untouched)
    with I s have "untouched sd d'" by (auto intro: untouched_trans)
    then show "case s' of (a, b, c, d) \<Rightarrow> untouched sd d" unfolding s' by simp
  qed (simp add: untouched_refl)
  then show ?thesis by simp
qed

lemma write_gamelist_untouched:
  "untouched sd (snd (write_gamelist w system True backup k nr (st, sd)))"
  by (simp add: write_gamelist_def Let_def ensure_dir_def backup_file_def untouched_def
           split: option.splits)

lemma system_untouched:
  assumes "filter_gamelist_and_sync_media w system cats True backup fz report (st, sd) = Inr (st', sd')"
  shows "untouched sd sd'"
proof (cases "gamelists w (nas_gamelist system)")
  case None
  with assms show ?thesis by (simp add: filter_gamelist_and_sync_media_def untouched_refl)
next
  case (Some gl)
  show ?thesis
  proof (cases "iter_rom_files (sd_rom_dir w system) = {}")
    case True
    with Some assms show ?thesis by (simp add: filter_gamelist_and_sync_media_def untouched_refl)
  next
    case False
    show ?thesis
    proof (cases gl)
      case Malformed
      with Some False assms show ?thesis by (simp add: filter_gamelist_and_sync_media_def)
    next
      case (Document root)
      from Some Document have g: "gamelists w (nas_gamelist system) = Some (Document root)" by simp
      obtain exd nmd eff st1
        where fd: "fold (index_category w (nas_media_root system) fz) cats (Map.empty, Map.empty, [], st)
                     = (exd, nmd, eff, st1)"
        by (cases "fold (index_category w (nas_media_root system) fz) cats (Map.empty, Map.empty, [], st)")
           auto
      from assms obtain k nr st3 sd3 where
        l: "for_loop
             (sync_game w system (sd_out_media_root system) (iter_rom_files (sd_rom_dir w system))
                exd nmd eff True fz report)
             (findall root ''game'')
             (0, (case find_child root ''provider'' of
                    None \<Rightarrow> Element ''gameList'' None []
                  | Some p \<Rightarrow> append_child (Element ''gameList'' None []) p),
              st1\<lparr>games_total_in_master := games_total_in_master st1 + length (findall root ''game'')\<rparr>,
              sd) = Inr (k, nr, st3, sd3)"
        and wr: "write_gamelist w system True backup k nr (st3, sd3) = (st', sd')"
        unfolding system_document[OF g False fd] by (auto split: sum.splits)
      from sync_games_untouched[OF l] have "untouched sd sd3" .
      moreover from write_gamelist_untouched[of sd3 w system backup k nr st3] wr
      have "untouched sd3 sd'" by simp
      ultimately show ?thesis by (rule untouched_trans)
    qed
  qed
qed

lemma sync_systems_untouched:
  assumes "sync_systems w cats True backup fz report systems (st, sd) = Inr (st', sd')"
  shows "untouched sd sd'"
proof -
  from assms have l: "for_loop (\<lambda>system. filter_gamelist_and_sync_media w system cats True backup fz report)
                        systems (st, sd) = Inr (st', sd')" by (simp add: sync_systems_def)
  have "case (st', sd') of (a, b) \<Rightarrow> untouched sd b"
  proof (rule for_loop_invariant[OF l, where I = "\<lambda>(a, b). untouched sd b"])
    fix y s s'
    assume I: "case s of (a, b) \<Rightarrow> untouched sd b"
      and B: "filter_gamelist_and_sync_media w y cats True backup fz report s = Inr s'"
    obtain a b where s: "s = (a, b)" by (cases s) auto
    obtain a' b' where s': "s' = (a', b')" by (cases s') auto
    from B have "untouched b b'" unfolding s s' by (rule system_untouched)
    with I s have "untouched sd b'" by (auto intro: untouched_trans)
    then show "case s' of (a, b) \<Rightarrow> untouched sd b" unfolding s' by simp
  qed (simp add: untouched_refl)
  then show ?thesis by simp
qed


subsection \<open>The count of the gamelists written\<close>

lemma copy_match_written:
  "copy_match w root cat dry src (st, sd) = Inr (st', sd') \<Longrightarrow>
   gamelists_written st' = gamelists_written st \<and> systems_processed st' = systems_processed st"
  by (auto simp: copy_match_def Let_def split: sum.splits if_splits)

lemma copy_matches_written:
  assumes "for_loop (copy_match w root cat dry) srcs (st, sd) = Inr (st', sd')"
  shows "gamelists_written st' = gamelists_written st \<and> systems_processed st' = systems_processed st"
proof -
  have "case (st', sd') of (a, b) \<Rightarrow>
          gamelists_written a = gamelists_written st \<and> systems_processed a = systems_processed st"
    by (rule for_loop_invariant[OF assms]) (auto dest: copy_match_written)
  then show ?thesis by simp
qed

lemma sync_category_written:
  "sync_category w root exd nmd stem nstem fz dry cat (m, x, st, sd) = Inr (m', x', st', sd') \<Longrightarrow>
   gamelists_written st' = gamelists_written st \<and> systems_processed st' = systems_processed st"
  by (auto simp: sync_category_def Let_def split: if_splits sum.splits dest: copy_matches_written)

lemma sync_categories_written:
  assumes "for_loop (sync_category w root exd nmd stem nstem fz dry) cs (m, x, st, sd) = Inr (m', x', st', sd')"
  shows "gamelists_written st' = gamelists_written st \<and> systems_processed st' = systems_processed st"
proof -
  have "case (m', x', st', sd') of (a, b, c, d) \<Rightarrow>
          gamelists_written c = gamelists_written st \<and> systems_processed c = systems_processed st"
    by (rule for_loop_invariant[OF assms]) (auto dest: sync_category_written)
  then show ?thesis by simp
qed

lemma sync_game_written:
  "sync_game w system root roms exd nmd eff dry fz report g (k, nr, st, sd) = Inr (k', nr', st', sd') \<Longrightarrow>
   gamelists_written st' = gamelists_written st \<and> systems_processed st' = systems_processed st"
  by (auto simp: sync_game_def Let_def split: option.splits if_splits sum.splits
           dest!: sync_categories_written)

lemma sync_games_written:
  assumes "for_loop (sync_game w system root roms exd nmd eff dry fz report) gs (k, nr, st, sd)
             = Inr (k', nr', st', sd')"
  shows "gamelists_written st' = gamelists_written st \<and> systems_processed st' = systems_processed st"
proof -
  have "case (k', nr', st', sd') of (a, b, c, d) \<Rightarrow>
          gamelists_written c = gamelists_written st \<and> systems_processed c = systems_processed st"
    by (rule for_loop_invariant[OF assms]) (auto dest: sync_game_written)
  then show ?thesis by simp
qed

lemma write_gamelist_written:
  "gamelists_written (fst (write_gamelist w system True backup k nr (st, sd))) = gamelists_written st"
  "gamelists_written (fst (write_gamelist w system False backup k nr (st, sd))) + systems_processed st
     = gamelists_written st + systems_processed (fst (write_gamelist w system False backup k nr (st, sd)))"
  by (simp_all add: write_gamelist_def Let_def)

lemma system_written:
  assumes "filter_gamelist_and_sync_media w system cats dry backup fz report (st, sd) = Inr (st', sd')"
  shows "(dry \<longrightarrow> gamelists_written st' = gamelists_written st)
         \<and> (\<not> dry \<longrightarrow> gamelists_written st' + systems_processed st
                          = gamelists_written st + systems_processed st')"
proof (cases "gamelists w (nas_gamelist system)")
  case None
  with assms show ?thesis by (simp add: filter_gamelist_and_sync_media_def)
next
  case (Some gl)
  show ?thesis
  proof (cases "iter_rom_files (sd_rom_dir w system) = {}")
    case True
    with Some assms show ?thesis by (simp add: filter_gamelist_and_sync_media_def)
  next
    case False
    show ?thesis
    proof (cases gl)
      case Malformed
      with Some False assms show ?thesis by (simp add: filter_gamelist_and_sync_media_def)
    next
      case (Document root)
      from Some Document have g: "gamelists w (nas_gamelist system) = Some (Document root)" by simp
      obtain exd nmd eff st1
        where fd: "fold (index_category w (nas_media_root system) fz) cats (Map.empty, Map.empty, [], st)
                     = (exd, nmd, eff, st1)"
        by (cases "fold (index_category w (nas_media_root system) fz) cats (Map.empty, Map.empty, [], st)")
           auto
      from index_categories_effect[OF fd dict_ok_empty dict_ok_empty]
      have st1: "gamelists_written st1 = gamelists_written st"
                "systems_processed st1 = systems_processed st" by simp_all
      let ?st2 = "st1\<lparr>games_total_in_master := games_total_in_master st1 + length (findall root ''game'')\<rparr>"
      from assms obtain k nr st3 sd3 where
        l: "for_loop
             (sync_game w system (sd_out_media_root system) (iter_rom_files (sd_rom_dir w system))
                exd nmd eff dry fz report)
             (findall root ''game'')
             (0, (case find_child root ''provider'' of
                    None \<Rightarrow> Element ''gameList'' None []
                  | Some p \<Rightarrow> append_child (Element ''gameList'' None []) p),
              ?st2, sd) = Inr (k, nr, st3, sd3)"
        and wr: "write_gamelist w system dry backup k nr (st3, sd3) = (st', sd')"
        unfolding system_document[OF g False fd] by (auto split: sum.splits)
      from sync_games_written[OF l] st1
      have st3: "gamelists_written st3 = gamelists_written st"
                "systems_processed st3 = systems_processed st" by simp_all
      show ?thesis
      proof (cases dry)
        case True
        with write_gamelist_written(1)[of w system backup k nr st3 sd3] wr st3
        show ?thesis by simp
      next
        case False
        with write_gamelist_written(2)[of w system backup k nr st3 sd3] wr st3
        show ?thesis by simp
      qed
    qed
  qed
qed

lemma sync_systems_written:
  assumes "sync_systems w cats dry backup fz report systems (st, sd) = Inr (st', sd')"
  shows "(dry \<longrightarrow> gamelists_written st' = gamelists_written st)
         \<and> (\<not> dry \<longrightarrow> gamelists_written st' + systems_processed st
                          = gamelists_written st + systems_processed st')"
proof -
  from assms have l: "for_loop (\<lambda>system. filter_gamelist_and_sync_media w system cats dry backup fz report)
                        systems (st, sd) = Inr (st', sd')" by (simp add: sync_systems_def)
  have "case (st', sd') of (a, b) \<Rightarrow>
          (dry \<longrightarrow> gamelists_written a = gamelists_written st)
          \<and> (\<not> dry \<longrightarrow> gamelists_written a + systems_processed st
                          = gamelists_written st + systems_processed a)"
  proof (rule for_loop_invariant[OF l])
    fix y s s'
    assume I: "case s of (a, b) \<Rightarrow>
          (dry \<longrightarrow> gamelists_written a = gamelists_written st)
          \<and> (\<not> dry \<longrightarrow> gamelists_written a + systems_processed st
                          = gamelists_written st + systems_processed a)"
      and B: "filter_gamelist_and_sync_media w y cats dry backup fz report s = Inr s'"
    obtain a b where s: "s = (a, b)" by (cases s) auto
    obtain a' b' where s': "s' = (a', b')" by (cases s') auto
    from B have "(dry \<longrightarrow> gamelists_written a' = gamelists_written a)
         \<and> (\<not> dry \<longrightarrow> gamelists_written a' + systems_processed a
                          = gamelists_written a + systems_processed a')"
      unfolding s s' by (rule system_written)
    with I s show "case s' of (a, b) \<Rightarrow>
          (dry \<longrightarrow> gamelists_written a = gamelists_written st)
          \<and> (\<not> dry \<longrightarrow> gamelists_written a + systems_processed st
                          = gamelists_written st + systems_processed a)"
      unfolding s' by auto
  qed simp
  then show ?thesis by simp
qed


subsection \<open>Preview and real run\<close>

text \<open>
  Claim C2, as amended. The master is a tree apart from the card: no write to the card
  changes what is read from the master. When the preview run and the real run of sync mode
  on the same inputs both end without an exception, and the preview run logs no copy
  destination twice, the two runs have the same counts of files copied and skipped, of
  categories attempted and missing (hence matched), of games kept and inspected, of ignored
  categories and of systems processed. The preview run leaves the files, documents and
  directories of the card as they are and counts no gamelist as written; the real run counts
  one gamelist written for each system it processes.
\<close>

theorem preview_statistics_agree:
  "sync_systems w media_categories True backup_gamelist_flag fuzzy_media_match report systems (stats, sd)
     = Inr (stats_d, sd_d)
   \<and> sync_systems w media_categories False backup_gamelist_flag fuzzy_media_match report systems
       (stats, sd) = Inr (stats_r, sd_r)
   \<and> printed sd = []
   \<and> distinct (copy_dsts (printed sd_d))
   \<longrightarrow> media_files_copied stats_r = media_files_copied stats_d
       \<and> media_files_skipped stats_r = media_files_skipped stats_d
       \<and> media_categories_attempted stats_r = media_categories_attempted stats_d
       \<and> media_categories_missing stats_r = media_categories_missing stats_d
       \<and> games_kept stats_r = games_kept stats_d
       \<and> games_total_in_master stats_r = games_total_in_master stats_d
       \<and> categories_ignored_empty_or_missing stats_r = categories_ignored_empty_or_missing stats_d
       \<and> systems_processed stats_r = systems_processed stats_d
       \<and> gamelists_written stats_d = gamelists_written stats
       \<and> gamelists_written stats_r + systems_processed stats
           = gamelists_written stats + systems_processed stats_r
       \<and> files sd_d = files sd \<and> documents sd_d = documents sd \<and> dirs sd_d = dirs sd"
proof
  assume a: "sync_systems w media_categories True backup_gamelist_flag fuzzy_media_match report systems
               (stats, sd) = Inr (stats_d, sd_d)
             \<and> sync_systems w media_categories False backup_gamelist_flag fuzzy_media_match report
                 systems (stats, sd) = Inr (stats_r, sd_r)
             \<and> printed sd = [] \<and> distinct (copy_dsts (printed sd_d))"
  then have dry: "sync_systems w media_categories True backup_gamelist_flag fuzzy_media_match report
                    systems (stats, sd) = Inr (stats_d, sd_d)"
    and real: "sync_systems w media_categories False backup_gamelist_flag fuzzy_media_match report
                 systems (stats, sd) = Inr (stats_r, sd_r)"
    and p: "printed sd = []" and nr: "no_repeat sd_d" by (simp_all add: no_repeat_def)
  from p have "mirrored w sd sd" by (simp add: mirrored_def)
  with same_counts_refl[of stats] have rel: "same_counts stats stats \<and> mirrored w sd sd" by blast
  from sync_systems_related[OF rel dry nr] real
  have sc: "same_counts stats_r stats_d" by auto
  from sync_systems_untouched[OF dry]
  have u: "files sd_d = files sd \<and> documents sd_d = documents sd \<and> dirs sd_d = dirs sd"
    by (simp add: untouched_def)
  from sync_systems_written[OF dry]
  have wd: "gamelists_written stats_d = gamelists_written stats" by simp
  from sync_systems_written[OF real]
  have wr: "gamelists_written stats_r + systems_processed stats
              = gamelists_written stats + systems_processed stats_r" by simp
  from sc have "media_files_copied stats_r = media_files_copied stats_d
          \<and> media_files_skipped stats_r = media_files_skipped stats_d
          \<and> media_categories_attempted stats_r = media_categories_attempted stats_d
          \<and> media_categories_missing stats_r = media_categories_missing stats_d
          \<and> games_kept stats_r = games_kept stats_d
          \<and> games_total_in_master stats_r = games_total_in_master stats_d
          \<and> categories_ignored_empty_or_missing stats_r = categories_ignored_empty_or_missing stats_d
          \<and> systems_processed stats_r = systems_processed stats_d"
    by (simp add: same_counts_def)
  with u wd wr show "media_files_copied stats_r = media_files_copied stats_d
       \<and> media_files_skipped stats_r = media_files_skipped stats_d
       \<and> media_categories_attempted stats_r = media_categories_attempted stats_d
       \<and> media_categories_missing stats_r = media_categories_missing stats_d
       \<and> games_kept stats_r = games_kept stats_d
       \<and> games_total_in_master stats_r = games_total_in_master stats_d
       \<and> categories_ignored_empty_or_missing stats_r = categories_ignored_empty_or_missing stats_d
       \<and> systems_processed stats_r = systems_processed stats_d
       \<and> gamelists_written stats_d = gamelists_written stats
       \<and> gamelists_written stats_r + systems_processed stats
           = gamelists_written stats + systems_processed stats_r
       \<and> files sd_d = files sd \<and> documents sd_d = documents sd \<and> dirs sd_d = dirs sd"
    by blast
qed

text \<open>The claim as stated fails: with two catalog entries for one ROM the real run copies the
  cover once and then skips it, as the first copy has made the destination; the preview
  run, which makes nothing, reports two copies.\<close>

theorem preview_statistics_differ_counterexample:
  "map_option media_files_copied
     (stats_of (sync_systems twice_world [''covers''] False False False False [''switch'']
                  (new_stats 1, empty_card))) = Some 1
   \<and> map_option media_files_skipped
     (stats_of (sync_systems twice_world [''covers''] False False False False [''switch'']
                  (new_stats 1, empty_card))) = Some 1
   \<and> map_option media_files_copied
     (stats_of (sync_systems twice_world [''covers''] True False False False [''switch'']
                  (new_stats 1, empty_card))) = Some 2
   \<and> map_option media_files_skipped
     (stats_of (sync_systems twice_world [''covers''] True False False False [''switch'']
                  (new_stats 1, empty_card))) = Some 0"
  by code_simp

theorem preview_statistics_agree_witness:
  "\<exists>stats_d sd_d stats_r sd_r.
     sync_systems sync_world [''covers'', ''screenshots'', ''videos''] True False False True [''switch'']
       (new_stats 1, empty_card) = Inr (stats_d, sd_d)
     \<and> sync_systems sync_world [''covers'', ''screenshots'', ''videos''] False False False True [''switch'']
         (new_stats 1, empty_card) = Inr (stats_r, sd_r)
     \<and> printed empty_card = []
     \<and> copy_dsts (printed sd_d) = [[''ES-DE'', ''downloaded_media'', ''switch'', ''covers'', ''Celeste.png'']]
     \<and> media_files_copied stats_r = media_files_copied stats_d
     \<and> media_files_copied stats_d = 1
     \<and> media_files_skipped stats_r = media_files_skipped stats_d
     \<and> media_categories_attempted stats_r = media_categories_attempted stats_d
     \<and> media_categories_missing stats_r = media_categories_missing stats_d
     \<and> media_categories_missing stats_d = 1
     \<and> systems_processed stats_r = 1
     \<and> gamelists_written stats_d = 0
     \<and> gamelists_written stats_r = 1"
proof -
  let ?dry = "sync_systems sync_world [''covers'', ''screenshots'', ''videos''] True False False True
                [''switch''] (new_stats 1, empty_card)"
  let ?real = "sync_systems sync_world [''covers'', ''screenshots'', ''videos''] False False False True
                [''switch''] (new_stats 1, empty_card)"
  have e: "(case ?dry of Inl e \<Rightarrow> False
            | Inr (st, sd) \<Rightarrow>
                copy_dsts (printed sd)
                  = [[''ES-DE'', ''downloaded_media'', ''switch'', ''covers'', ''Celeste.png'']]
                \<and> media_files_copied st = 1 \<and> media_categories_missing st = 1)"
    by code_simp
  then obtain stats_d sd_d where dry: "?dry = Inr (stats_d, sd_d)"
    and c: "copy_dsts (printed sd_d)
              = [[''ES-DE'', ''downloaded_media'', ''switch'', ''covers'', ''Celeste.png'']]"
    and v: "media_files_copied stats_d = 1" "media_categories_missing stats_d = 1"
    by (cases ?dry) auto
  have "(case ?real of Inl e \<Rightarrow> False | Inr (st, sd) \<Rightarrow> systems_processed st = 1)"
    by code_simp
  then obtain stats_r sd_r where real: "?real = Inr (stats_r, sd_r)"
    and sp: "systems_processed stats_r = 1"
    by (cases ?real) auto
  have p: "printed empty_card = []" by (simp add: empty_card_def)
  have n: "gamelists_written (new_stats 1) = 0" "systems_processed (new_stats 1) = 0"
    by (simp_all add: new_stats_def)
  from c have d: "distinct (copy_dsts (printed sd_d))" by simp
  from preview_statistics_agree[of sync_world "[''covers'', ''screenshots'', ''videos'']" False False True
      "[''switch'']" "new_stats 1" empty_card stats_d sd_d stats_r sd_r] dry real p d
  have "media_files_copied stats_r = media_files_copied stats_d"
    and "media_files_skipped stats_r = media_files_skipped stats_d"
    and "media_categories_attempted stats_r = media_categories_attempted stats_d"
    and "media_categories_missing stats_r = media_categories_missing stats_d"
    and "gamelists_written stats_d = gamelists_written (new_stats 1)"
    and "gamelists_written stats_r + systems_processed (new_stats 1)
           = gamelists_written (new_stats 1) + systems_processed stats_r"
    by blast+
  with dry real p c v sp n show ?thesis by (intro exI[of _ stats_d] exI[of _ sd_d] exI[of _ stats_r] exI[of _ sd_r]) simp
qed

subsection \<open>A malformed catalog\<close>

lemma malformed_raises:
  assumes "gamelists w (nas_gamelist system) = Some Malformed"
    and "iter_rom_files (sd_rom_dir w system) \<noteq> {}"
  shows "filter_gamelist_and_sync_media w system cats dry backup fz report (st, sd)
           = Inl (ParseError (nas_gamelist system), sd)"
  using assms by (simp add: filter_gamelist_and_sync_media_def)

lemma skipped_system:
  assumes "gamelists w (nas_gamelist system) = None \<or> iter_rom_files (sd_rom_dir w system) = {}"
  shows "filter_gamelist_and_sync_media w system cats dry backup fz report st = Inr st"
  using assms
  by (cases st) (auto simp: filter_gamelist_and_sync_media_def split: option.splits)

lemma finite_iter_rom_files: "finite (iter_rom_files d)"
  by (simp add: iter_rom_files_def split: option.splits)

lemma audit_no_roms:
  assumes "iter_rom_files (sd_rom_dir w system) = {}"
  shows "audit_system w cats fz system all_items = Inr all_items"
  using assms by (simp add: audit_system_def)

lemma audit_malformed_raises:
  assumes "gamelists w (nas_gamelist system) = Some Malformed"
    and "iter_rom_files (sd_rom_dir w system) \<noteq> {}"
  shows "audit_system w cats fz system all_items = Inl (ParseError (nas_gamelist system))"
  using assms by (simp add: audit_system_def Let_def finite_iter_rom_files)

lemma audit_missing_catalog:
  assumes "gamelists w (nas_gamelist system) = None"
  shows "\<exists>items. audit_system w cats fz system all_items = Inr items"
  using assms by (simp add: audit_system_def Let_def)

text \<open>
  Claim C3, as amended. The exception of \<^verbatim>\<open>ET.parse\<close> on a malformed catalog is not caught, in
  sync mode or in audit mode: it leaves the step of its system and the loop over the
  systems, so the systems before it have been processed, those after it are not, and the
  run ends with that exception. What the loop does go on after is a system that the script
  itself skips: in sync mode a system without a catalog or without ROM files, which leaves
  the statistics and the card as they are; in audit mode a system without ROM files, which
  adds nothing, and a system without a catalog, whose step returns.
\<close>

theorem parse_error_ends_the_run:
  "(gamelists w (nas_gamelist system) = Some Malformed
      \<and> iter_rom_files (sd_rom_dir w system) \<noteq> {}
      \<and> sync_systems w media_categories dry_run backup_gamelist_flag fuzzy_media_match report
            before st = Inr (stats1, sd1)
     \<longrightarrow> sync_systems w media_categories dry_run backup_gamelist_flag fuzzy_media_match report
           (before @ system # rest) st = Inl (ParseError (nas_gamelist system), sd1))
   \<and> (gamelists w (nas_gamelist system) = None \<or> iter_rom_files (sd_rom_dir w system) = {}
     \<longrightarrow> sync_systems w media_categories dry_run backup_gamelist_flag fuzzy_media_match report
           (system # rest) st
         = sync_systems w media_categories dry_run backup_gamelist_flag fuzzy_media_match report
             rest st)
   \<and> (gamelists w (nas_gamelist system) = Some Malformed
      \<and> iter_rom_files (sd_rom_dir w system) \<noteq> {}
      \<and> for_loop (audit_system w media_categories fuzzy_media_match) before [] = Inr items
     \<longrightarrow> audit_missing_master w (before @ system # rest) media_categories fuzzy_media_match
           audit_suggest audit_csv = Inl (ParseError (nas_gamelist system)))
   \<and> (iter_rom_files (sd_rom_dir w system) = {}
     \<longrightarrow> audit_missing_master w (system # rest) media_categories fuzzy_media_match
           audit_suggest audit_csv
         = audit_missing_master w rest media_categories fuzzy_media_match audit_suggest audit_csv)
   \<and> (gamelists w (nas_gamelist system) = None
     \<longrightarrow> (\<exists>items'. audit_system w media_categories fuzzy_media_match system items = Inr items'))"
proof (intro conjI impI)
  assume a: "gamelists w (nas_gamelist system) = Some Malformed
      \<and> iter_rom_files (sd_rom_dir w system) \<noteq> {}
      \<and> sync_systems w media_categories dry_run backup_gamelist_flag fuzzy_media_match report
            before st = Inr (stats1, sd1)"
  then have "filter_gamelist_and_sync_media w system media_categories dry_run backup_gamelist_flag
               fuzzy_media_match report (stats1, sd1) = Inl (ParseError (nas_gamelist system), sd1)"
    by (simp add: malformed_raises)
  with a show "sync_systems w media_categories dry_run backup_gamelist_flag fuzzy_media_match report
           (before @ system # rest) st = Inl (ParseError (nas_gamelist system), sd1)"
    by (simp add: sync_systems_def for_loop_append)
next
  assume "gamelists w (nas_gamelist system) = None \<or> iter_rom_files (sd_rom_dir w system) = {}"
  then have "filter_gamelist_and_sync_media w system media_categories dry_run backup_gamelist_flag
               fuzzy_media_match report st = Inr st" by (rule skipped_system)
  then show "sync_systems w media_categories dry_run backup_gamelist_flag fuzzy_media_match report
           (system # rest) st
         = sync_systems w media_categories dry_run backup_gamelist_flag fuzzy_media_match report
             rest st"
    by (simp add: sync_systems_def)
next
  assume a: "gamelists w (nas_gamelist system) = Some Malformed
      \<and> iter_rom_files (sd_rom_dir w system) \<noteq> {}
      \<and> for_loop (audit_system w media_categories fuzzy_media_match) before [] = Inr items"
  then have "audit_system w media_categories fuzzy_media_match system items
               = Inl (ParseError (nas_gamelist system))"
    by (simp add: audit_malformed_raises)
  with a have "for_loop (audit_system w media_categories fuzzy_media_match) (before @ system # rest) []
                 = Inl (ParseError (nas_gamelist system))"
    by (simp add: for_loop_append)
  then show "audit_missing_master w (before @ system # rest) media_categories fuzzy_media_match
           audit_suggest audit_csv = Inl (ParseError (nas_gamelist system))"
    by (simp add: audit_missing_master_def)
next
  assume "iter_rom_files (sd_rom_dir w system) = {}"
  then have "audit_system w media_categories fuzzy_media_match system [] = Inr []"
    by (rule audit_no_roms)
  then show "audit_missing_master w (system # rest) media_categories fuzzy_media_match
           audit_suggest audit_csv
         = audit_missing_master w rest media_categories fuzzy_media_match audit_suggest audit_csv"
    by (simp add: audit_missing_master_def)
next
  assume "gamelists w (nas_gamelist system) = None"
  then show "\<exists>items'. audit_system w media_categories fuzzy_media_match system items = Inr items'"
    by (rule audit_missing_catalog)
qed

lemma batch_gba: "gamelists batch_world (nas_gamelist ''gba'') = Some Malformed"
  by (simp add: batch_world_def nas_gamelist_def)

lemma batch_gba_roms: "iter_rom_files (sd_rom_dir batch_world ''gba'') \<noteq> {}"
  by code_simp

text \<open>The claim as stated fails: the malformed catalog of the first system ends the loop and
  \<^verbatim>\<open>main\<close> with the parse error and the card as it was, although the second system alone is
  processed and keeps a game.\<close>

theorem malformed_catalog_halts_batch_counterexample:
  "sync_systems batch_world [''covers''] False False False False [''gba'', ''switch'']
     (new_stats 2, empty_card)
     = Inl (ParseError [''gamelists'', ''gba'', ''gamelist.xml''], empty_card)
   \<and> map_option games_kept
       (stats_of (sync_systems batch_world [''covers''] False False False False [''switch'']
                    (new_stats 2, empty_card))) = Some 1
   \<and> main batch_world
       (plain_args\<lparr>arg_media := ''covers'', arg_systems := ''gba,switch''\<rparr>) empty_card
     = Inl (ParseError [''gamelists'', ''gba'', ''gamelist.xml''], empty_card)"
proof -
  have m: "filter_gamelist_and_sync_media batch_world ''gba'' [''covers''] False False False False
             (new_stats 2, empty_card) = Inl (ParseError (nas_gamelist ''gba''), empty_card)"
    by (rule malformed_raises[OF batch_gba batch_gba_roms])
  have n: "nas_gamelist ''gba'' = [''gamelists'', ''gba'', ''gamelist.xml'']"
    by (simp add: nas_gamelist_def)
  from m have 1: "sync_systems batch_world [''covers''] False False False False [''gba'', ''switch'']
     (new_stats 2, empty_card)
     = Inl (ParseError [''gamelists'', ''gba'', ''gamelist.xml''], empty_card)"
    by (simp add: sync_systems_def n)
  have 2: "map_option games_kept
       (stats_of (sync_systems batch_world [''covers''] False False False False [''switch'']
                    (new_stats 2, empty_card))) = Some 1"
    by code_simp
  have v: "validate_sd_root batch_world = Inr ()"
    by (simp add: validate_sd_root_def batch_world_def)
  have c: "resolve_media_categories batch_world
             (plain_args\<lparr>arg_media := ''covers'', arg_systems := ''gba,switch''\<rparr>) = Inr [''covers'']"
    unfolding plain_args_def by code_simp
  have s: "resolve_systems batch_world
             (plain_args\<lparr>arg_media := ''covers'', arg_systems := ''gba,switch''\<rparr>) = [''gba'', ''switch'']"
    unfolding plain_args_def by code_simp
  have f: "arg_audit_missing_master (plain_args\<lparr>arg_media := ''covers'', arg_systems := ''gba,switch''\<rparr>) = False"
    "arg_dry_run (plain_args\<lparr>arg_media := ''covers'', arg_systems := ''gba,switch''\<rparr>) = False"
    "arg_backup_gamelist (plain_args\<lparr>arg_media := ''covers'', arg_systems := ''gba,switch''\<rparr>) = False"
    "arg_fuzzy_media_match (plain_args\<lparr>arg_media := ''covers'', arg_systems := ''gba,switch''\<rparr>) = False"
    "arg_report (plain_args\<lparr>arg_media := ''covers'', arg_systems := ''gba,switch''\<rparr>) = False"
    by (simp_all add: plain_args_def)
  have l: "length [''gba'', ''switch''] = 2" by simp
  have 3: "main batch_world
       (plain_args\<lparr>arg_media := ''covers'', arg_systems := ''gba,switch''\<rparr>) empty_card
     = Inl (ParseError [''gamelists'', ''gba'', ''gamelist.xml''], empty_card)"
    unfolding main_def v c s f Let_def l by (simp add: 1)
  from 1 2 3 show ?thesis by blast
qed

theorem parse_error_ends_the_run_witness:
  "sync_systems batch_world [''covers''] False False False False ([] @ ''gba'' # [''switch''])
     (new_stats 3, empty_card)
     = Inl (ParseError (nas_gamelist ''gba''), empty_card)
   \<and> sync_systems batch_world [''covers''] False False False False (''nes'' # [''switch''])
       (new_stats 3, empty_card)
     = sync_systems batch_world [''covers''] False False False False [''switch'']
         (new_stats 3, empty_card)
   \<and> audit_missing_master batch_world ([] @ ''gba'' # [''switch'']) [''covers''] False False None
     = Inl (ParseError (nas_gamelist ''gba''))
   \<and> audit_missing_master batch_world (''psx'' # [''switch'']) [''covers''] False False None
     = audit_missing_master batch_world [''switch''] [''covers''] False False None
   \<and> (\<exists>items'. audit_system batch_world [''covers''] False ''nes'' [] = Inr items')"
proof -
  have b: "sync_systems batch_world [''covers''] False False False False [] (new_stats 3, empty_card)
             = Inr (new_stats 3, empty_card)"
    by (simp add: sync_systems_def)
  have ab: "for_loop (audit_system batch_world [''covers''] False) [] [] = Inr []" by simp
  have nes: "gamelists batch_world (nas_gamelist ''nes'') = None"
    by (simp add: batch_world_def nas_gamelist_def)
  have psx: "iter_rom_files (sd_rom_dir batch_world ''psx'') = {}" by code_simp
  from parse_error_ends_the_run[of batch_world "''gba''" "[''covers'']" False False False False "[]"
      "(new_stats 3, empty_card)" "new_stats 3" empty_card "[''switch'']" "[]" False None]
    batch_gba batch_gba_roms b ab
  have 1: "sync_systems batch_world [''covers''] False False False False ([] @ ''gba'' # [''switch''])
     (new_stats 3, empty_card) = Inl (ParseError (nas_gamelist ''gba''), empty_card)"
    and 3: "audit_missing_master batch_world ([] @ ''gba'' # [''switch'']) [''covers''] False False None
     = Inl (ParseError (nas_gamelist ''gba''))" by blast+
  from parse_error_ends_the_run[of batch_world "''nes''" "[''covers'']" False False False False "[]"
      "(new_stats 3, empty_card)" "new_stats 3" empty_card "[''switch'']" "[]" False None] nes
  have 2: "sync_systems batch_world [''covers''] False False False False (''nes'' # [''switch''])
       (new_stats 3, empty_card)
     = sync_systems batch_world [''covers''] False False False False [''switch'']
         (new_stats 3, empty_card)"
    and 5: "\<exists>items'. audit_system batch_world [''covers''] False ''nes'' [] = Inr items'" by blast+
  from parse_error_ends_the_run[of batch_world "''psx''" "[''covers'']" False False False False "[]"
      "(new_stats 3, empty_card)" "new_stats 3" empty_card "[''switch'']" "[]" False None] psx
  have 4: "audit_missing_master batch_world (''psx'' # [''switch'']) [''covers''] False False None
     = audit_missing_master batch_world [''switch''] [''covers''] False False None" by blast
  from 1 2 3 4 5 show ?thesis by blast
qed

end
